theory Spec2Isabelle
  imports Complex_Main
begin

section \<open>Aggregation of unit systems: drake/systems/n\_ary\_system.h\<close>

text \<open>
  The class template \<^verbatim>\<open>NArySystem<UnitSystem>\<close> holds an ordered list of unit systems
  and offers the system interface (dynamics, output, the two flags, the three dimension
  queries) over composite vectors. The embedding below follows the header member by
  member. Exceptions are values of a sum type; the loop of \<^verbatim>\<open>dynamics\<close> and of
  \<^verbatim>\<open>output\<close> is a recursive function with its termination proof.
\<close>

subsection \<open>Exceptions\<close>

text \<open>
  \<^verbatim>\<open>std::invalid_argument(msg)\<close> is what the aggregate throws itself. \<open>OutOfRange\<close> is the
  fault of a composite vector read or written outside its slots. \<open>Raised e\<close> is any other
  exception value \<open>e\<close>. A unit system may throw any of the three.
\<close>

datatype 'e exn = InvalidArgument string | OutOfRange | Raised 'e

subsection \<open>Composite vectors\<close>

text \<open>
  Modelled from the spec: the header drake/systems/n\_ary\_state.h with the class template
  \<^verbatim>\<open>NAryState\<close> (the type of the aggregate's state, input and output vectors) is not among
  the sources. The spec describes it as either an ordered sequence of per-unit vector
  values, whose length is the count, or an unsized vector built from a flat buffer, whose
  count is reported negative; \<^verbatim>\<open>get(i)\<close> and \<^verbatim>\<open>set(i, v)\<close> require
  \<open>0 \<le> i < count\<close> when the count is known, and an index outside is a fault. An unsized
  vector is given here by what reading it at a unit index returns.
\<close>

datatype 'v nary_state = Sized "'v list" | Unsized "nat \<Rightarrow> 'v"

fun count :: "'v nary_state \<Rightarrow> int" where
  "count (Sized vs) = int (length vs)"
| "count (Unsized f) = - 1"

fun get :: "'v nary_state \<Rightarrow> nat \<Rightarrow> 'v option" where
  "get (Sized vs) i = (if i < length vs then Some (vs ! i) else None)"
| "get (Unsized f) i = Some (f i)"

fun set_unit :: "'v nary_state \<Rightarrow> nat \<Rightarrow> 'v \<Rightarrow> 'v nary_state option" where
  "set_unit (Sized vs) i v = (if i < length vs then Some (Sized (vs[i := v])) else None)"
| "set_unit (Unsized f) i v = Some (Unsized (f(i := v)))"

text \<open>
  Modelled from the spec: the per-unit vector type (\<^verbatim>\<open>UnitSystem::StateVector\<close> and its
  siblings) is a template argument that no source file declares. Of it the model needs the
  fixed number of scalar rows of one unit and the value of a freshly allocated slot.
\<close>

record 'v unit_vector =
  unit_rows :: nat
  unit_default :: 'v

text \<open>
  Modelled from the spec: the constructor of \<^verbatim>\<open>NAryState\<close> from a unit count allocates
  that many default-valued slots, and the static \<^verbatim>\<open>rowsFromUnitCount(n)\<close> is the total
  scalar dimension of \<open>n\<close> units of the fixed per-unit dimension. Both are unbounded
  naturals here.
\<close>

definition NAryState :: "'v unit_vector \<Rightarrow> nat \<Rightarrow> 'v nary_state" where
  "NAryState V n = Sized (replicate n (unit_default V))"

definition rowsFromUnitCount :: "'v unit_vector \<Rightarrow> nat \<Rightarrow> nat" where
  "rowsFromUnitCount V n = n * unit_rows V"

subsection \<open>Unit systems\<close>

text \<open>
  The template argument \<^verbatim>\<open>UnitSystem\<close>: what the aggregate calls on a unit. \<open>'s\<close> is the
  scalar type (also the type of time), \<open>'x\<close>, \<open>'u\<close> and \<open>'y\<close> are the per-unit state, input
  and output vectors. A call on a unit returns a value or throws.
\<close>

record ('s, 'x, 'u, 'y, 'e) unit_system =
  unit_dynamics :: "'s \<Rightarrow> 'x \<Rightarrow> 'u \<Rightarrow> 'e exn + 'x"
  unit_output :: "'s \<Rightarrow> 'x \<Rightarrow> 'u \<Rightarrow> 'e exn + 'y"
  unit_isTimeVarying :: bool
  unit_isDirectFeedthrough :: bool

subsection \<open>The aggregate\<close>

text \<open>
  An instance of \<^verbatim>\<open>NArySystem<UnitSystem>\<close>: the three per-unit vector types fixed by the
  template argument, and the private member \<^verbatim>\<open>systems_\<close>.
\<close>

record ('s, 'x, 'u, 'y, 'e) n_ary_system =
  StateVector :: "'x unit_vector"
  InputVector :: "'u unit_vector"
  OutputVector :: "'y unit_vector"
  systems :: "('s, 'x, 'u, 'y, 'e) unit_system list"

definition NArySystem ::
  "'x unit_vector \<Rightarrow> 'u unit_vector \<Rightarrow> 'y unit_vector \<Rightarrow> ('s, 'x, 'u, 'y, 'e) n_ary_system" where
  "NArySystem X U Y = \<lparr>StateVector = X, InputVector = U, OutputVector = Y, systems = []\<rparr>"

definition addSystem ::
  "('s, 'x, 'u, 'y, 'e) n_ary_system \<Rightarrow> ('s, 'x, 'u, 'y, 'e) unit_system \<Rightarrow>
   ('s, 'x, 'u, 'y, 'e) n_ary_system" where
  "addSystem A system = A\<lparr>systems := systems A @ [system]\<rparr>"

text \<open>
  The outcome of \<^verbatim>\<open>dynamics\<close> and \<^verbatim>\<open>output\<close> is a pair: the indices of the units whose
  operation was invoked, in the order of the invocations, and the value returned or the
  exception thrown. The first component makes the calls on the collaborators observable.

  The loop \<^verbatim>\<open>for (i = 0; i < systems_.size(); ++i)\<close>, from index \<open>i\<close> on, with the result
  vector built so far; its body is
  \<^verbatim>\<open>xdot.set(i, systems_[i]->dynamics(time, state.get(i), input.get(i)))\<close>. An exception
  leaves the loop at once. C++ does not fix which of the two \<^verbatim>\<open>get\<close> calls runs first; both
  fault in the same way and before the unit is called, so the outcome does not depend on it.
\<close>

function dynamics_loop ::
  "('s, 'x, 'u, 'y, 'e) n_ary_system \<Rightarrow> 's \<Rightarrow> 'x nary_state \<Rightarrow> 'u nary_state \<Rightarrow>
   nat \<Rightarrow> 'x nary_state \<Rightarrow> nat list \<Rightarrow> nat list \<times> ('e exn + 'x nary_state)" where
  "dynamics_loop A time state input i xdot calls =
     (if i < length (systems A) then
        (case get state i of
           None \<Rightarrow> (calls, Inl OutOfRange)
         | Some xi \<Rightarrow>
        (case get input i of
           None \<Rightarrow> (calls, Inl OutOfRange)
         | Some ui \<Rightarrow>
        (case unit_dynamics (systems A ! i) time xi ui of
           Inl e \<Rightarrow> (calls @ [i], Inl e)
         | Inr d \<Rightarrow>
        (case set_unit xdot i d of
           None \<Rightarrow> (calls @ [i], Inl OutOfRange)
         | Some xdot' \<Rightarrow> dynamics_loop A time state input (i + 1) xdot' (calls @ [i])))))
      else (calls, Inr xdot))"
  by pat_completeness auto
termination
  by (relation "measure (\<lambda>(A, time, state, input, i, xdot, calls). length (systems A) - i)") auto

text \<open>
  \<^verbatim>\<open>count()\<close> is signed and \<^verbatim>\<open>systems_.size()\<close> unsigned; the comparison is reached only
  with a count that is not negative, where the conversion keeps the value.
\<close>

definition dynamics ::
  "('s, 'x, 'u, 'y, 'e) n_ary_system \<Rightarrow> 's \<Rightarrow> 'x nary_state \<Rightarrow> 'u nary_state \<Rightarrow>
   nat list \<times> ('e exn + 'x nary_state)" where
  "dynamics A time state input =
     (if 0 \<le> count state \<and> count state \<noteq> int (length (systems A)) then
        ([], Inl (InvalidArgument ''State count differs from systems count.''))
      else if 0 \<le> count input \<and> count input \<noteq> int (length (systems A)) then
        ([], Inl (InvalidArgument ''Input count differs from systems count.''))
      else dynamics_loop A time state input 0
             (NAryState (StateVector A) (length (systems A))) [])"

function output_loop ::
  "('s, 'x, 'u, 'y, 'e) n_ary_system \<Rightarrow> 's \<Rightarrow> 'x nary_state \<Rightarrow> 'u nary_state \<Rightarrow>
   nat \<Rightarrow> 'y nary_state \<Rightarrow> nat list \<Rightarrow> nat list \<times> ('e exn + 'y nary_state)" where
  "output_loop A time state input i y calls =
     (if i < length (systems A) then
        (case get state i of
           None \<Rightarrow> (calls, Inl OutOfRange)
         | Some xi \<Rightarrow>
        (case get input i of
           None \<Rightarrow> (calls, Inl OutOfRange)
         | Some ui \<Rightarrow>
        (case unit_output (systems A ! i) time xi ui of
           Inl e \<Rightarrow> (calls @ [i], Inl e)
         | Inr d \<Rightarrow>
        (case set_unit y i d of
           None \<Rightarrow> (calls @ [i], Inl OutOfRange)
         | Some y' \<Rightarrow> output_loop A time state input (i + 1) y' (calls @ [i])))))
      else (calls, Inr y))"
  by pat_completeness auto
termination
  by (relation "measure (\<lambda>(A, time, state, input, i, y, calls). length (systems A) - i)") auto

text \<open>The member \<^verbatim>\<open>output\<close>; the bare name is reserved in Isabelle.\<close>

definition output_sys ::
  "('s, 'x, 'u, 'y, 'e) n_ary_system \<Rightarrow> 's \<Rightarrow> 'x nary_state \<Rightarrow> 'u nary_state \<Rightarrow>
   nat list \<times> ('e exn + 'y nary_state)" where
  "output_sys A time state input =
     (if 0 \<le> count state \<and> count state \<noteq> int (length (systems A)) then
        ([], Inl (InvalidArgument ''State count differs from systems count.''))
      else if 0 \<le> count input \<and> count input \<noteq> int (length (systems A)) then
        ([], Inl (InvalidArgument ''Input count differs from systems count.''))
      else output_loop A time state input 0
             (NAryState (OutputVector A) (length (systems A))) [])"

text \<open>The \<^verbatim>\<open>&&\<close> of the two flags reads \<^verbatim>\<open>systems_[0]\<close> only when the list is not empty.\<close>

definition isTimeVarying :: "('s, 'x, 'u, 'y, 'e) n_ary_system \<Rightarrow> bool" where
  "isTimeVarying A =
     (if 0 < length (systems A) then unit_isTimeVarying (systems A ! 0) else False)"

definition isDirectFeedthrough :: "('s, 'x, 'u, 'y, 'e) n_ary_system \<Rightarrow> bool" where
  "isDirectFeedthrough A =
     (if 0 < length (systems A) then unit_isDirectFeedthrough (systems A ! 0) else False)"

definition getNumStates :: "('s, 'x, 'u, 'y, 'e) n_ary_system \<Rightarrow> nat" where
  "getNumStates A = rowsFromUnitCount (StateVector A) (length (systems A))"

definition getNumInputs :: "('s, 'x, 'u, 'y, 'e) n_ary_system \<Rightarrow> nat" where
  "getNumInputs A = rowsFromUnitCount (InputVector A) (length (systems A))"

definition getNumOutputs :: "('s, 'x, 'u, 'y, 'e) n_ary_system \<Rightarrow> nat" where
  "getNumOutputs A = rowsFromUnitCount (OutputVector A) (length (systems A))"

subsection \<open>Unit systems as shared objects\<close>

text \<open>
  The member \<^verbatim>\<open>systems_\<close> is a \<^verbatim>\<open>std::vector<std::shared_ptr<UnitSystem>>\<close>: the aggregate
  holds pointers, a unit may be registered more than once and may be held elsewhere. The
  members reach a unit through its pointer, \<^verbatim>\<open>systems_[i]->dynamics(...)\<close>, and the pointer
  is to an object that is not \<^verbatim>\<open>const\<close>, so the operation called may change the unit. The
  definitions above take a unit for what it returns when called. The definitions of this
  subsection embed the same members with the pointers and the objects explicit: every member
  takes the memory and returns it after the call, next to what the caller receives.
\<close>

type_synonym addr = nat

text \<open>
  The class \<^verbatim>\<open>UnitSystem\<close>: its three per-unit vector types, and for each member function
  what it returns on an object in state \<open>q\<close> together with the state of the object after
  the call.
\<close>

record ('q, 's, 'x, 'u, 'y, 'e) unit_class =
  StateVector_of :: "'x unit_vector"
  InputVector_of :: "'u unit_vector"
  OutputVector_of :: "'y unit_vector"
  member_dynamics :: "'q \<Rightarrow> 's \<Rightarrow> 'x \<Rightarrow> 'u \<Rightarrow> ('e exn + 'x) \<times> 'q"
  member_output :: "'q \<Rightarrow> 's \<Rightarrow> 'x \<Rightarrow> 'u \<Rightarrow> ('e exn + 'y) \<times> 'q"
  member_isTimeVarying :: "'q \<Rightarrow> bool \<times> 'q"
  member_isDirectFeedthrough :: "'q \<Rightarrow> bool \<times> 'q"

text \<open>
  The memory: the member \<^verbatim>\<open>systems_\<close> of the aggregate, as addresses, and the unit objects
  at the addresses.
\<close>

record 'q memory =
  systems_ptr :: "addr list"
  objects :: "addr \<Rightarrow> 'q"

definition addSystem_shared :: "'q memory \<Rightarrow> addr \<Rightarrow> 'q memory" where
  "addSystem_shared m system = m\<lparr>systems_ptr := systems_ptr m @ [system]\<rparr>"

text \<open>
  The loop of \<^verbatim>\<open>dynamics\<close> (lines 46 to 48), as above; the call on the unit at
  \<^verbatim>\<open>systems_[i]\<close> leaves that object in the state the operation returns, also when it
  throws.
\<close>

function dynamics_shared_loop ::
  "('q, 's, 'x, 'u, 'y, 'e) unit_class \<Rightarrow> 's \<Rightarrow> 'x nary_state \<Rightarrow> 'u nary_state \<Rightarrow>
   nat \<Rightarrow> 'x nary_state \<Rightarrow> nat list \<Rightarrow> 'q memory \<Rightarrow>
   (nat list \<times> ('e exn + 'x nary_state)) \<times> 'q memory" where
  "dynamics_shared_loop C time state input i xdot calls m =
     (if i < length (systems_ptr m) then
        (case get state i of
           None \<Rightarrow> ((calls, Inl OutOfRange), m)
         | Some xi \<Rightarrow>
        (case get input i of
           None \<Rightarrow> ((calls, Inl OutOfRange), m)
         | Some ui \<Rightarrow>
        (case member_dynamics C (objects m (systems_ptr m ! i)) time xi ui of
           (Inl e, q) \<Rightarrow>
             ((calls @ [i], Inl e), m\<lparr>objects := (objects m)(systems_ptr m ! i := q)\<rparr>)
         | (Inr d, q) \<Rightarrow>
        (case set_unit xdot i d of
           None \<Rightarrow>
             ((calls @ [i], Inl OutOfRange), m\<lparr>objects := (objects m)(systems_ptr m ! i := q)\<rparr>)
         | Some xdot' \<Rightarrow>
             dynamics_shared_loop C time state input (i + 1) xdot' (calls @ [i])
               (m\<lparr>objects := (objects m)(systems_ptr m ! i := q)\<rparr>)))))
      else ((calls, Inr xdot), m))"
  by pat_completeness auto
termination
  by (relation "measure (\<lambda>(C, time, state, input, i, xdot, calls, m). length (systems_ptr m) - i)")
    auto

definition dynamics_shared ::
  "('q, 's, 'x, 'u, 'y, 'e) unit_class \<Rightarrow> 'q memory \<Rightarrow> 's \<Rightarrow> 'x nary_state \<Rightarrow>
   'u nary_state \<Rightarrow> (nat list \<times> ('e exn + 'x nary_state)) \<times> 'q memory" where
  "dynamics_shared C m time state input =
     (if 0 \<le> count state \<and> count state \<noteq> int (length (systems_ptr m)) then
        (([], Inl (InvalidArgument ''State count differs from systems count.'')), m)
      else if 0 \<le> count input \<and> count input \<noteq> int (length (systems_ptr m)) then
        (([], Inl (InvalidArgument ''Input count differs from systems count.'')), m)
      else dynamics_shared_loop C time state input 0
             (NAryState (StateVector_of C) (length (systems_ptr m))) [] m)"

function output_shared_loop ::
  "('q, 's, 'x, 'u, 'y, 'e) unit_class \<Rightarrow> 's \<Rightarrow> 'x nary_state \<Rightarrow> 'u nary_state \<Rightarrow>
   nat \<Rightarrow> 'y nary_state \<Rightarrow> nat list \<Rightarrow> 'q memory \<Rightarrow>
   (nat list \<times> ('e exn + 'y nary_state)) \<times> 'q memory" where
  "output_shared_loop C time state input i y calls m =
     (if i < length (systems_ptr m) then
        (case get state i of
           None \<Rightarrow> ((calls, Inl OutOfRange), m)
         | Some xi \<Rightarrow>
        (case get input i of
           None \<Rightarrow> ((calls, Inl OutOfRange), m)
         | Some ui \<Rightarrow>
        (case member_output C (objects m (systems_ptr m ! i)) time xi ui of
           (Inl e, q) \<Rightarrow>
             ((calls @ [i], Inl e), m\<lparr>objects := (objects m)(systems_ptr m ! i := q)\<rparr>)
         | (Inr d, q) \<Rightarrow>
        (case set_unit y i d of
           None \<Rightarrow>
             ((calls @ [i], Inl OutOfRange), m\<lparr>objects := (objects m)(systems_ptr m ! i := q)\<rparr>)
         | Some y' \<Rightarrow>
             output_shared_loop C time state input (i + 1) y' (calls @ [i])
               (m\<lparr>objects := (objects m)(systems_ptr m ! i := q)\<rparr>)))))
      else ((calls, Inr y), m))"
  by pat_completeness auto
termination
  by (relation "measure (\<lambda>(C, time, state, input, i, y, calls, m). length (systems_ptr m) - i)")
    auto

definition output_shared ::
  "('q, 's, 'x, 'u, 'y, 'e) unit_class \<Rightarrow> 'q memory \<Rightarrow> 's \<Rightarrow> 'x nary_state \<Rightarrow>
   'u nary_state \<Rightarrow> (nat list \<times> ('e exn + 'y nary_state)) \<times> 'q memory" where
  "output_shared C m time state input =
     (if 0 \<le> count state \<and> count state \<noteq> int (length (systems_ptr m)) then
        (([], Inl (InvalidArgument ''State count differs from systems count.'')), m)
      else if 0 \<le> count input \<and> count input \<noteq> int (length (systems_ptr m)) then
        (([], Inl (InvalidArgument ''Input count differs from systems count.'')), m)
      else output_shared_loop C time state input 0
             (NAryState (OutputVector_of C) (length (systems_ptr m))) [] m)"

text \<open>The flags call unit 0 through its pointer; the dimension queries call no unit.\<close>

definition isTimeVarying_shared ::
  "('q, 's, 'x, 'u, 'y, 'e) unit_class \<Rightarrow> 'q memory \<Rightarrow> bool \<times> 'q memory" where
  "isTimeVarying_shared C m =
     (if 0 < length (systems_ptr m) then
        (case member_isTimeVarying C (objects m (systems_ptr m ! 0)) of
           (b, q) \<Rightarrow> (b, m\<lparr>objects := (objects m)(systems_ptr m ! 0 := q)\<rparr>))
      else (False, m))"

definition isDirectFeedthrough_shared ::
  "('q, 's, 'x, 'u, 'y, 'e) unit_class \<Rightarrow> 'q memory \<Rightarrow> bool \<times> 'q memory" where
  "isDirectFeedthrough_shared C m =
     (if 0 < length (systems_ptr m) then
        (case member_isDirectFeedthrough C (objects m (systems_ptr m ! 0)) of
           (b, q) \<Rightarrow> (b, m\<lparr>objects := (objects m)(systems_ptr m ! 0 := q)\<rparr>))
      else (False, m))"

definition getNumStates_shared ::
  "('q, 's, 'x, 'u, 'y, 'e) unit_class \<Rightarrow> 'q memory \<Rightarrow> nat \<times> 'q memory" where
  "getNumStates_shared C m = (rowsFromUnitCount (StateVector_of C) (length (systems_ptr m)), m)"

definition getNumInputs_shared ::
  "('q, 's, 'x, 'u, 'y, 'e) unit_class \<Rightarrow> 'q memory \<Rightarrow> nat \<times> 'q memory" where
  "getNumInputs_shared C m = (rowsFromUnitCount (InputVector_of C) (length (systems_ptr m)), m)"

definition getNumOutputs_shared ::
  "('q, 's, 'x, 'u, 'y, 'e) unit_class \<Rightarrow> 'q memory \<Rightarrow> nat \<times> 'q memory" where
  "getNumOutputs_shared C m = (rowsFromUnitCount (OutputVector_of C) (length (systems_ptr m)), m)"

text \<open>
  The public members as calls on the object, and a sequence of calls, one after the other.
  The memory after a call is the one the member returns.
\<close>

datatype ('s, 'x, 'u) call =
    AddSystem addr
  | Dynamics 's "'x nary_state" "'u nary_state"
  | Output 's "'x nary_state" "'u nary_state"
  | IsTimeVarying
  | IsDirectFeedthrough
  | GetNumStates
  | GetNumInputs
  | GetNumOutputs

datatype ('x, 'y, 'e) reply =
    Void
  | Derivative "nat list \<times> ('e exn + 'x nary_state)"
  | Outputs "nat list \<times> ('e exn + 'y nary_state)"
  | Flag bool
  | Rows nat

fun perform ::
  "('q, 's, 'x, 'u, 'y, 'e) unit_class \<Rightarrow> ('s, 'x, 'u) call \<Rightarrow> 'q memory \<Rightarrow>
   ('x, 'y, 'e) reply \<times> 'q memory" where
  "perform C (AddSystem system) m = (Void, addSystem_shared m system)"
| "perform C (Dynamics time state input) m =
     (case dynamics_shared C m time state input of (r, m') \<Rightarrow> (Derivative r, m'))"
| "perform C (Output time state input) m =
     (case output_shared C m time state input of (r, m') \<Rightarrow> (Outputs r, m'))"
| "perform C IsTimeVarying m =
     (case isTimeVarying_shared C m of (b, m') \<Rightarrow> (Flag b, m'))"
| "perform C IsDirectFeedthrough m =
     (case isDirectFeedthrough_shared C m of (b, m') \<Rightarrow> (Flag b, m'))"
| "perform C GetNumStates m = (case getNumStates_shared C m of (n, m') \<Rightarrow> (Rows n, m'))"
| "perform C GetNumInputs m = (case getNumInputs_shared C m of (n, m') \<Rightarrow> (Rows n, m'))"
| "perform C GetNumOutputs m = (case getNumOutputs_shared C m of (n, m') \<Rightarrow> (Rows n, m'))"

fun perform_all ::
  "('q, 's, 'x, 'u, 'y, 'e) unit_class \<Rightarrow> ('s, 'x, 'u) call list \<Rightarrow> 'q memory \<Rightarrow>
   ('x, 'y, 'e) reply list \<times> 'q memory" where
  "perform_all C [] m = ([], m)"
| "perform_all C (c # cs) m =
     (case perform C c m of (r, m') \<Rightarrow>
        (case perform_all C cs m' of (rs, m'') \<Rightarrow> (r # rs, m'')))"

text \<open>
  The pointers that the \<^verbatim>\<open>addSystem\<close> calls of a sequence register, in order.
\<close>

fun is_AddSystem :: "('s, 'x, 'u) call \<Rightarrow> bool" where
  "is_AddSystem (AddSystem system) = True"
| "is_AddSystem c = False"

fun added :: "('s, 'x, 'u) call list \<Rightarrow> addr list" where
  "added [] = []"
| "added (AddSystem system # cs) = system # added cs"
| "added (c # cs) = added cs"

text \<open>
  What an object in state \<open>q\<close> returns when called, as a unit of the first embedding, and
  the aggregate of these units that a memory holds.
\<close>

definition unit_at ::
  "('q, 's, 'x, 'u, 'y, 'e) unit_class \<Rightarrow> 'q \<Rightarrow> ('s, 'x, 'u, 'y, 'e) unit_system" where
  "unit_at C q =
     \<lparr>unit_dynamics = (\<lambda>time x u. fst (member_dynamics C q time x u)),
      unit_output = (\<lambda>time x u. fst (member_output C q time x u)),
      unit_isTimeVarying = fst (member_isTimeVarying C q),
      unit_isDirectFeedthrough = fst (member_isDirectFeedthrough C q)\<rparr>"

definition aggregate_of ::
  "('q, 's, 'x, 'u, 'y, 'e) unit_class \<Rightarrow> 'q memory \<Rightarrow> ('s, 'x, 'u, 'y, 'e) n_ary_system" where
  "aggregate_of C m =
     \<lparr>StateVector = StateVector_of C, InputVector = InputVector_of C,
      OutputVector = OutputVector_of C,
      systems = map (\<lambda>a. unit_at C (objects m a)) (systems_ptr m)\<rparr>"

subsection \<open>Concrete unit systems\<close>

text \<open>
  The unit of the spec's scenario: one scalar of state, input and output, with
  \<open>x' = - x + u\<close> (and \<open>y = x\<close>). The scalars are reals; the values of the scenario are
  exact in binary floating point as well. A second unit throws whatever it is asked to.
\<close>

definition scalar_vector :: "real unit_vector" where
  "scalar_vector = \<lparr>unit_rows = 1, unit_default = 0\<rparr>"

definition decay_unit :: "(real, real, real, real, string) unit_system" where
  "decay_unit =
     \<lparr>unit_dynamics = (\<lambda>time x u. Inr (- x + u)),
      unit_output = (\<lambda>time x u. Inr x),
      unit_isTimeVarying = False,
      unit_isDirectFeedthrough = False\<rparr>"

definition throwing_unit :: "string exn \<Rightarrow> (real, real, real, real, string) unit_system" where
  "throwing_unit e =
     \<lparr>unit_dynamics = (\<lambda>time x u. Inl e),
      unit_output = (\<lambda>time x u. Inl e),
      unit_isTimeVarying = True,
      unit_isDirectFeedthrough = True\<rparr>"

definition empty_aggregate :: "(real, real, real, real, string) n_ary_system" where
  "empty_aggregate = NArySystem scalar_vector scalar_vector scalar_vector"

text \<open>Three registered copies of the scenario's unit.\<close>

definition three_units :: "(real, real, real, real, string) n_ary_system" where
  "three_units =
     addSystem (addSystem (addSystem empty_aggregate decay_unit) decay_unit) decay_unit"

text \<open>The same with a throwing unit registered second.\<close>

definition faulty_units :: "string exn \<Rightarrow> (real, real, real, real, string) n_ary_system" where
  "faulty_units e =
     addSystem (addSystem (addSystem empty_aggregate decay_unit) (throwing_unit e)) decay_unit"

text \<open>
  Two classes of unit objects over one real of state. An object of the first has a gain
  \<open>q\<close>, \<open>x' = - q x + u\<close>, and no operation changes it. An object of the second counts the
  calls of its \<^verbatim>\<open>dynamics\<close>: it reports the count and adds one to it. The first memory
  registers the unit at address 0 twice; the second holds one counting unit.
\<close>

definition gain_class :: "(real, real, real, real, real, string) unit_class" where
  "gain_class =
     \<lparr>StateVector_of = scalar_vector, InputVector_of = scalar_vector,
      OutputVector_of = scalar_vector,
      member_dynamics = (\<lambda>q time x u. (Inr (- q * x + u), q)),
      member_output = (\<lambda>q time x u. (Inr x, q)),
      member_isTimeVarying = (\<lambda>q. (False, q)),
      member_isDirectFeedthrough = (\<lambda>q. (False, q))\<rparr>"

definition counting_class :: "(real, real, real, real, real, string) unit_class" where
  "counting_class =
     \<lparr>StateVector_of = scalar_vector, InputVector_of = scalar_vector,
      OutputVector_of = scalar_vector,
      member_dynamics = (\<lambda>q time x u. (Inr q, q + 1)),
      member_output = (\<lambda>q time x u. (Inr x, q)),
      member_isTimeVarying = (\<lambda>q. (False, q)),
      member_isDirectFeedthrough = (\<lambda>q. (False, q))\<rparr>"

definition shared_units :: "real memory" where
  "shared_units = \<lparr>systems_ptr = [0, 1, 0], objects = (\<lambda>a. if a = 0 then 1 else 2)\<rparr>"

definition one_unit :: "real memory" where
  "one_unit = \<lparr>systems_ptr = [0], objects = (\<lambda>a. 1)\<rparr>"

section \<open>Properties of composite vectors\<close>


lemma set_unit_count: "set_unit v i d = Some v' \<Longrightarrow> count v' = count v"
  by (cases v) (auto split: if_splits)

lemma set_unit_get_same:
  "set_unit v i d = Some v' \<Longrightarrow> get v' i = Some d"
  by (cases v) (auto split: if_splits)

lemma set_unit_get_other:
  "set_unit v i d = Some v' \<Longrightarrow> j \<noteq> i \<Longrightarrow> get v' j = get v j"
  by (cases v) (auto split: if_splits)

lemma set_unit_in_range:
  "count v = int n \<Longrightarrow> i < n \<Longrightarrow> \<exists>v'. set_unit v i d = Some v'"
  by (cases v) auto


lemma count_NAryState: "count (NAryState V n) = int n"
  by (simp add: NAryState_def)

lemma valid_get:
  "\<not> (0 \<le> count v \<and> count v \<noteq> int n) \<Longrightarrow> i < n \<Longrightarrow> \<exists>w. get v i = Some w"
  by (cases v) auto

section \<open>Properties of the two loops\<close>

text \<open>
  The defining equation of a loop is recursive, so it is unfolded one iteration at a time,
  by instantiation.
\<close>

declare dynamics_loop.simps [simp del] output_loop.simps [simp del]

declare dynamics_shared_loop.simps [simp del] output_shared_loop.simps [simp del]

lemma dynamics_loop_Inr:
  "dynamics_loop A t x u i xdot calls = (calls', Inr r) \<Longrightarrow>
   count xdot = int (length (systems A)) \<Longrightarrow>
   count r = int (length (systems A)) \<and>
   calls' = calls @ [i..<length (systems A)] \<and>
   (\<forall>j. j < i \<longrightarrow> get r j = get xdot j) \<and>
   (\<forall>j. i \<le> j \<and> j < length (systems A) \<longrightarrow>
      (\<exists>xj uj d. get x j = Some xj \<and> get u j = Some uj \<and>
         unit_dynamics (systems A ! j) t xj uj = Inr d \<and> get r j = Some d))"
proof (induction A t x u i xdot calls rule: dynamics_loop.induct)
  case (1 A t x u i xdot calls)
  show ?case
  proof (cases "i < length (systems A)")
    case False
    with "1.prems"(1) have "calls' = calls" "r = xdot"
      by (simp_all add: dynamics_loop.simps[of A t x u i xdot calls])
    with "1.prems"(2) False show ?thesis by auto
  next
    case True
    from True "1.prems"(1) obtain xi ui d xdot' where
      gx: "get x i = Some xi" and gu: "get u i = Some ui" and
      ud: "unit_dynamics (systems A ! i) t xi ui = Inr d" and
      su: "set_unit xdot i d = Some xdot'" and
      rec: "dynamics_loop A t x u (i + 1) xdot' (calls @ [i]) = (calls', Inr r)"
      by (simp add: dynamics_loop.simps[of A t x u i xdot calls] split: option.splits sum.splits)
    have cnt: "count xdot' = int (length (systems A))"
      using su "1.prems"(2) by (simp add: set_unit_count)
    note ih = "1.IH"[OF True gx gu ud su rec cnt]
    have c1: "count r = int (length (systems A))" using ih by simp
    have c2: "calls' = calls @ [i..<length (systems A)]"
      using ih True by (simp add: upt_conv_Cons)
    have c3: "\<forall>j. j < i \<longrightarrow> get r j = get xdot j"
    proof (intro allI impI)
      fix j assume "j < i"
      then have "get r j = get xdot' j" using ih by simp
      also have "\<dots> = get xdot j" using su \<open>j < i\<close> by (simp add: set_unit_get_other)
      finally show "get r j = get xdot j" .
    qed
    have c4: "\<forall>j. i \<le> j \<and> j < length (systems A) \<longrightarrow>
      (\<exists>xj uj d. get x j = Some xj \<and> get u j = Some uj \<and>
         unit_dynamics (systems A ! j) t xj uj = Inr d \<and> get r j = Some d)"
    proof (intro allI impI)
      fix j assume j: "i \<le> j \<and> j < length (systems A)"
      show "\<exists>xj uj d. get x j = Some xj \<and> get u j = Some uj \<and>
         unit_dynamics (systems A ! j) t xj uj = Inr d \<and> get r j = Some d"
      proof (cases "j = i")
        case True
        have "get r i = get xdot' i" using ih by simp
        then have "get r i = Some d" using su by (simp add: set_unit_get_same)
        with gx gu ud True show ?thesis by simp
      next
        case False
        with j have "i + 1 \<le> j \<and> j < length (systems A)" by simp
        with ih show ?thesis by blast
      qed
    qed
    from c1 c2 c3 c4 show ?thesis by blast
  qed
qed


lemma dynamics_loop_returns:
  "count xdot = int (length (systems A)) \<Longrightarrow>
   (\<forall>j. i \<le> j \<and> j < length (systems A) \<longrightarrow>
      (\<exists>xj uj d. get x j = Some xj \<and> get u j = Some uj \<and>
         unit_dynamics (systems A ! j) t xj uj = Inr d)) \<Longrightarrow>
   \<exists>r. dynamics_loop A t x u i xdot calls = (calls @ [i..<length (systems A)], Inr r)"
proof (induction A t x u i xdot calls rule: dynamics_loop.induct)
  case (1 A t x u i xdot calls)
  show ?case
  proof (cases "i < length (systems A)")
    case False
    then show ?thesis
      by (simp add: dynamics_loop.simps[of A t x u i xdot calls])
  next
    case True
    with "1.prems"(2) obtain xi ui d where
      gx: "get x i = Some xi" and gu: "get u i = Some ui" and
      ud: "unit_dynamics (systems A ! i) t xi ui = Inr d"
      by blast
    obtain xdot' where su: "set_unit xdot i d = Some xdot'"
      using set_unit_in_range[OF "1.prems"(1) True, of d] by (elim exE)
    have cnt: "count xdot' = int (length (systems A))"
      using su "1.prems"(1) by (simp add: set_unit_count)
    have rest: "\<forall>j. i + 1 \<le> j \<and> j < length (systems A) \<longrightarrow>
      (\<exists>xj uj d. get x j = Some xj \<and> get u j = Some uj \<and>
         unit_dynamics (systems A ! j) t xj uj = Inr d)"
      using "1.prems"(2) by simp
    from "1.IH"[OF True gx gu ud su cnt rest] obtain r where
      "dynamics_loop A t x u (i + 1) xdot' (calls @ [i]) =
         ((calls @ [i]) @ [i + 1..<length (systems A)], Inr r)" ..
    with True gx gu ud su show ?thesis
      by (simp add: dynamics_loop.simps[of A t x u i xdot calls] upt_conv_Cons)
  qed
qed

lemma dynamics_loop_throws:
  "count xdot = int (length (systems A)) \<Longrightarrow> i \<le> k \<Longrightarrow> k < length (systems A) \<Longrightarrow>
   (\<forall>j. i \<le> j \<and> j < k \<longrightarrow>
      (\<exists>xj uj d. get x j = Some xj \<and> get u j = Some uj \<and>
         unit_dynamics (systems A ! j) t xj uj = Inr d)) \<Longrightarrow>
   get x k = Some xk \<Longrightarrow> get u k = Some uk \<Longrightarrow>
   unit_dynamics (systems A ! k) t xk uk = Inl e \<Longrightarrow>
   dynamics_loop A t x u i xdot calls = (calls @ [i..<Suc k], Inl e)"
proof (induction A t x u i xdot calls rule: dynamics_loop.induct)
  case (1 A t x u i xdot calls)
  from "1.prems"(2,3) have True: "i < length (systems A)" by simp
  show ?case
  proof (cases "i = k")
    case True
    with "1.prems"(3,5,6,7) show ?thesis
      by (simp add: dynamics_loop.simps[of A t x u k xdot calls])
  next
    case False
    with "1.prems"(2) have ik: "i < k" by simp
    with "1.prems"(4) obtain xi ui d where
      gx: "get x i = Some xi" and gu: "get u i = Some ui" and
      ud: "unit_dynamics (systems A ! i) t xi ui = Inr d"
      by blast
    obtain xdot' where su: "set_unit xdot i d = Some xdot'"
      using set_unit_in_range[OF "1.prems"(1) True, of d] by (elim exE)
    have cnt: "count xdot' = int (length (systems A))"
      using su "1.prems"(1) by (simp add: set_unit_count)
    have rest: "\<forall>j. i + 1 \<le> j \<and> j < k \<longrightarrow>
      (\<exists>xj uj d. get x j = Some xj \<and> get u j = Some uj \<and>
         unit_dynamics (systems A ! j) t xj uj = Inr d)"
      using "1.prems"(4) by simp
    from ik have ik': "i + 1 \<le> k" by simp
    have "dynamics_loop A t x u (i + 1) xdot' (calls @ [i]) =
         ((calls @ [i]) @ [i + 1..<Suc k], Inl e)"
      by (rule "1.IH"[OF True gx gu ud su cnt ik' "1.prems"(3) rest "1.prems"(5,6,7)])
    with True gx gu ud su ik show ?thesis
      by (simp add: dynamics_loop.simps[of A t x u i xdot calls] upt_conv_Cons)
  qed
qed

lemma output_loop_Inr:
  "output_loop A t x u i y calls = (calls', Inr r) \<Longrightarrow>
   count y = int (length (systems A)) \<Longrightarrow>
   count r = int (length (systems A)) \<and>
   calls' = calls @ [i..<length (systems A)] \<and>
   (\<forall>j. j < i \<longrightarrow> get r j = get y j) \<and>
   (\<forall>j. i \<le> j \<and> j < length (systems A) \<longrightarrow>
      (\<exists>xj uj d. get x j = Some xj \<and> get u j = Some uj \<and>
         unit_output (systems A ! j) t xj uj = Inr d \<and> get r j = Some d))"
proof (induction A t x u i y calls rule: output_loop.induct)
  case (1 A t x u i y calls)
  show ?case
  proof (cases "i < length (systems A)")
    case False
    with "1.prems"(1) have "calls' = calls" "r = y"
      by (simp_all add: output_loop.simps[of A t x u i y calls])
    with "1.prems"(2) False show ?thesis by auto
  next
    case True
    from True "1.prems"(1) obtain xi ui d y' where
      gx: "get x i = Some xi" and gu: "get u i = Some ui" and
      ud: "unit_output (systems A ! i) t xi ui = Inr d" and
      su: "set_unit y i d = Some y'" and
      rec: "output_loop A t x u (i + 1) y' (calls @ [i]) = (calls', Inr r)"
      by (simp add: output_loop.simps[of A t x u i y calls] split: option.splits sum.splits)
    have cnt: "count y' = int (length (systems A))"
      using su "1.prems"(2) by (simp add: set_unit_count)
    note ih = "1.IH"[OF True gx gu ud su rec cnt]
    have c1: "count r = int (length (systems A))" using ih by simp
    have c2: "calls' = calls @ [i..<length (systems A)]"
      using ih True by (simp add: upt_conv_Cons)
    have c3: "\<forall>j. j < i \<longrightarrow> get r j = get y j"
    proof (intro allI impI)
      fix j assume "j < i"
      then have "get r j = get y' j" using ih by simp
      also have "\<dots> = get y j" using su \<open>j < i\<close> by (simp add: set_unit_get_other)
      finally show "get r j = get y j" .
    qed
    have c4: "\<forall>j. i \<le> j \<and> j < length (systems A) \<longrightarrow>
      (\<exists>xj uj d. get x j = Some xj \<and> get u j = Some uj \<and>
         unit_output (systems A ! j) t xj uj = Inr d \<and> get r j = Some d)"
    proof (intro allI impI)
      fix j assume j: "i \<le> j \<and> j < length (systems A)"
      show "\<exists>xj uj d. get x j = Some xj \<and> get u j = Some uj \<and>
         unit_output (systems A ! j) t xj uj = Inr d \<and> get r j = Some d"
      proof (cases "j = i")
        case True
        have "get r i = get y' i" using ih by simp
        then have "get r i = Some d" using su by (simp add: set_unit_get_same)
        with gx gu ud True show ?thesis by simp
      next
        case False
        with j have "i + 1 \<le> j \<and> j < length (systems A)" by simp
        with ih show ?thesis by blast
      qed
    qed
    from c1 c2 c3 c4 show ?thesis by blast
  qed
qed


lemma output_loop_returns:
  "count y = int (length (systems A)) \<Longrightarrow>
   (\<forall>j. i \<le> j \<and> j < length (systems A) \<longrightarrow>
      (\<exists>xj uj d. get x j = Some xj \<and> get u j = Some uj \<and>
         unit_output (systems A ! j) t xj uj = Inr d)) \<Longrightarrow>
   \<exists>r. output_loop A t x u i y calls = (calls @ [i..<length (systems A)], Inr r)"
proof (induction A t x u i y calls rule: output_loop.induct)
  case (1 A t x u i y calls)
  show ?case
  proof (cases "i < length (systems A)")
    case False
    then show ?thesis
      by (simp add: output_loop.simps[of A t x u i y calls])
  next
    case True
    with "1.prems"(2) obtain xi ui d where
      gx: "get x i = Some xi" and gu: "get u i = Some ui" and
      ud: "unit_output (systems A ! i) t xi ui = Inr d"
      by blast
    obtain y' where su: "set_unit y i d = Some y'"
      using set_unit_in_range[OF "1.prems"(1) True, of d] by (elim exE)
    have cnt: "count y' = int (length (systems A))"
      using su "1.prems"(1) by (simp add: set_unit_count)
    have rest: "\<forall>j. i + 1 \<le> j \<and> j < length (systems A) \<longrightarrow>
      (\<exists>xj uj d. get x j = Some xj \<and> get u j = Some uj \<and>
         unit_output (systems A ! j) t xj uj = Inr d)"
      using "1.prems"(2) by simp
    from "1.IH"[OF True gx gu ud su cnt rest] obtain r where
      "output_loop A t x u (i + 1) y' (calls @ [i]) =
         ((calls @ [i]) @ [i + 1..<length (systems A)], Inr r)" ..
    with True gx gu ud su show ?thesis
      by (simp add: output_loop.simps[of A t x u i y calls] upt_conv_Cons)
  qed
qed

lemma output_loop_throws:
  "count y = int (length (systems A)) \<Longrightarrow> i \<le> k \<Longrightarrow> k < length (systems A) \<Longrightarrow>
   (\<forall>j. i \<le> j \<and> j < k \<longrightarrow>
      (\<exists>xj uj d. get x j = Some xj \<and> get u j = Some uj \<and>
         unit_output (systems A ! j) t xj uj = Inr d)) \<Longrightarrow>
   get x k = Some xk \<Longrightarrow> get u k = Some uk \<Longrightarrow>
   unit_output (systems A ! k) t xk uk = Inl e \<Longrightarrow>
   output_loop A t x u i y calls = (calls @ [i..<Suc k], Inl e)"
proof (induction A t x u i y calls rule: output_loop.induct)
  case (1 A t x u i y calls)
  from "1.prems"(2,3) have True: "i < length (systems A)" by simp
  show ?case
  proof (cases "i = k")
    case True
    with "1.prems"(3,5,6,7) show ?thesis
      by (simp add: output_loop.simps[of A t x u k y calls])
  next
    case False
    with "1.prems"(2) have ik: "i < k" by simp
    with "1.prems"(4) obtain xi ui d where
      gx: "get x i = Some xi" and gu: "get u i = Some ui" and
      ud: "unit_output (systems A ! i) t xi ui = Inr d"
      by blast
    obtain y' where su: "set_unit y i d = Some y'"
      using set_unit_in_range[OF "1.prems"(1) True, of d] by (elim exE)
    have cnt: "count y' = int (length (systems A))"
      using su "1.prems"(1) by (simp add: set_unit_count)
    have rest: "\<forall>j. i + 1 \<le> j \<and> j < k \<longrightarrow>
      (\<exists>xj uj d. get x j = Some xj \<and> get u j = Some uj \<and>
         unit_output (systems A ! j) t xj uj = Inr d)"
      using "1.prems"(4) by simp
    from ik have ik': "i + 1 \<le> k" by simp
    have "output_loop A t x u (i + 1) y' (calls @ [i]) =
         ((calls @ [i]) @ [i + 1..<Suc k], Inl e)"
      by (rule "1.IH"[OF True gx gu ud su cnt ik' "1.prems"(3) rest "1.prems"(5,6,7)])
    with True gx gu ud su ik show ?thesis
      by (simp add: output_loop.simps[of A t x u i y calls] upt_conv_Cons)
  qed
qed

section \<open>Properties of \<^verbatim>\<open>dynamics\<close>\<close>

lemma dynamics_Inr:
  assumes "dynamics A t x u = (calls, Inr r)"
  shows "count r = int (length (systems A)) \<and> calls = [0..<length (systems A)] \<and>
    (\<forall>j. j < length (systems A) \<longrightarrow>
      (\<exists>xj uj d. get x j = Some xj \<and> get u j = Some uj \<and>
         unit_dynamics (systems A ! j) t xj uj = Inr d \<and> get r j = Some d))"
proof -
  from assms have
    "dynamics_loop A t x u 0 (NAryState (StateVector A) (length (systems A))) [] = (calls, Inr r)"
    by (simp add: dynamics_def split: if_splits)
  from dynamics_loop_Inr[OF this count_NAryState] show ?thesis by simp
qed

lemma dynamics_passes:
  assumes "\<not> (0 \<le> count x \<and> count x \<noteq> int (length (systems A)))"
      and "\<not> (0 \<le> count u \<and> count u \<noteq> int (length (systems A)))"
  shows "dynamics A t x u =
    dynamics_loop A t x u 0 (NAryState (StateVector A) (length (systems A))) []"
  by (simp only: dynamics_def assms if_False)

lemma dynamics_returns:
  assumes vx: "\<not> (0 \<le> count x \<and> count x \<noteq> int (length (systems A)))"
      and vu: "\<not> (0 \<le> count u \<and> count u \<noteq> int (length (systems A)))"
      and ok: "\<forall>i xi ui. i < length (systems A) \<and> get x i = Some xi \<and> get u i = Some ui \<longrightarrow>
                 (\<exists>d. unit_dynamics (systems A ! i) t xi ui = Inr d)"
  shows "\<exists>r. dynamics A t x u = ([0..<length (systems A)], Inr r)"
proof -
  have "\<forall>j. 0 \<le> j \<and> j < length (systems A) \<longrightarrow>
      (\<exists>xj uj d. get x j = Some xj \<and> get u j = Some uj \<and>
         unit_dynamics (systems A ! j) t xj uj = Inr d)"
  proof (intro allI impI)
    fix j assume j: "0 \<le> j \<and> j < length (systems A)"
    then obtain xj uj where g: "get x j = Some xj" "get u j = Some uj"
      using valid_get[OF vx, of j] valid_get[OF vu, of j] by auto
    with ok j obtain d where "unit_dynamics (systems A ! j) t xj uj = Inr d" by blast
    with g show "\<exists>xj uj d. get x j = Some xj \<and> get u j = Some uj \<and>
         unit_dynamics (systems A ! j) t xj uj = Inr d" by simp
  qed
  then have "\<exists>r. dynamics_loop A t x u 0 (NAryState (StateVector A) (length (systems A))) [] =
      ([] @ [0..<length (systems A)], Inr r)"
    by (intro dynamics_loop_returns count_NAryState)
  then show ?thesis by (simp add: dynamics_passes[OF vx vu])
qed

lemma dynamics_throws:
  assumes vx: "\<not> (0 \<le> count x \<and> count x \<noteq> int (length (systems A)))"
      and vu: "\<not> (0 \<le> count u \<and> count u \<noteq> int (length (systems A)))"
      and k: "k < length (systems A)"
      and before: "\<forall>j xj uj. j < k \<and> get x j = Some xj \<and> get u j = Some uj \<longrightarrow>
                 (\<exists>d. unit_dynamics (systems A ! j) t xj uj = Inr d)"
      and at: "get x k = Some xk" "get u k = Some uk"
              "unit_dynamics (systems A ! k) t xk uk = Inl e"
  shows "dynamics A t x u = ([0..<Suc k], Inl e)"
proof -
  have "\<forall>j. 0 \<le> j \<and> j < k \<longrightarrow>
      (\<exists>xj uj d. get x j = Some xj \<and> get u j = Some uj \<and>
         unit_dynamics (systems A ! j) t xj uj = Inr d)"
  proof (intro allI impI)
    fix j assume j: "0 \<le> j \<and> j < k"
    with k have jn: "j < length (systems A)" by simp
    obtain xj uj where g: "get x j = Some xj" "get u j = Some uj"
      using valid_get[OF vx jn] valid_get[OF vu jn] by auto
    with before j obtain d where "unit_dynamics (systems A ! j) t xj uj = Inr d" by blast
    with g show "\<exists>xj uj d. get x j = Some xj \<and> get u j = Some uj \<and>
         unit_dynamics (systems A ! j) t xj uj = Inr d" by simp
  qed
  then have "dynamics_loop A t x u 0 (NAryState (StateVector A) (length (systems A))) [] =
      ([] @ [0..<Suc k], Inl e)"
    using k at by (intro dynamics_loop_throws count_NAryState) simp_all
  then show ?thesis by (simp add: dynamics_passes[OF vx vu])
qed

lemma dynamics_loop_calls_prefix:
  "\<exists>c. fst (dynamics_loop A t x u i xdot calls) = calls @ c"
proof (induction A t x u i xdot calls rule: dynamics_loop.induct)
  case (1 A t x u i xdot calls)
  show ?case
  proof (cases "i < length (systems A)")
    case False
    then show ?thesis by (simp add: dynamics_loop.simps[of A t x u i xdot calls])
  next
    case True
    show ?thesis
    proof (cases "get x i")
      case None
      with True show ?thesis by (simp add: dynamics_loop.simps[of A t x u i xdot calls])
    next
      case gx: (Some xi)
      show ?thesis
      proof (cases "get u i")
        case None
        with True gx show ?thesis by (simp add: dynamics_loop.simps[of A t x u i xdot calls])
      next
        case gu: (Some ui)
        show ?thesis
        proof (cases "unit_dynamics (systems A ! i) t xi ui")
          case (Inl e)
          with True gx gu show ?thesis
            by (simp add: dynamics_loop.simps[of A t x u i xdot calls])
        next
          case ud: (Inr d)
          show ?thesis
          proof (cases "set_unit xdot i d")
            case None
            with True gx gu ud show ?thesis
              by (simp add: dynamics_loop.simps[of A t x u i xdot calls])
          next
            case su: (Some xdot')
            from "1.IH"[OF True gx gu ud su] obtain c where
              "fst (dynamics_loop A t x u (i + 1) xdot' (calls @ [i])) = (calls @ [i]) @ c" ..
            with True gx gu ud su show ?thesis
              by (simp add: dynamics_loop.simps[of A t x u i xdot calls])
          qed
        qed
      qed
    qed
  qed
qed

lemma dynamics_loop_invokes:
  assumes i: "i < length (systems A)"
      and gx: "get x i = Some xi" and gu: "get u i = Some ui"
  shows "\<exists>c. fst (dynamics_loop A t x u i xdot calls) = calls @ i # c"
proof (cases "unit_dynamics (systems A ! i) t xi ui")
  case (Inl e)
  with i gx gu show ?thesis by (simp add: dynamics_loop.simps[of A t x u i xdot calls])
next
  case ud: (Inr d)
  show ?thesis
  proof (cases "set_unit xdot i d")
    case None
    with i gx gu ud show ?thesis by (simp add: dynamics_loop.simps[of A t x u i xdot calls])
  next
    case su: (Some xdot')
    obtain c where
      "fst (dynamics_loop A t x u (i + 1) xdot' (calls @ [i])) = (calls @ [i]) @ c"
      using dynamics_loop_calls_prefix[of A t x u "i + 1" xdot' "calls @ [i]"] ..
    with i gx gu ud su show ?thesis
      by (simp add: dynamics_loop.simps[of A t x u i xdot calls])
  qed
qed

lemma dynamics_loop_no_calls:
  assumes "dynamics_loop A t x u i xdot calls = (calls, Inl e)"
  shows "e = OutOfRange"
proof (cases "i < length (systems A)")
  case False
  with assms show ?thesis by (simp add: dynamics_loop.simps[of A t x u i xdot calls])
next
  case True
  show ?thesis
  proof (cases "\<exists>xi ui. get x i = Some xi \<and> get u i = Some ui")
    case False
    with assms True show ?thesis
      by (auto simp add: dynamics_loop.simps[of A t x u i xdot calls] split: option.splits)
  next
    case True
    then obtain xi ui where "get x i = Some xi" "get u i = Some ui" by blast
    from dynamics_loop_invokes[OF \<open>i < length (systems A)\<close> this, of t xdot calls] assms
    show ?thesis by simp
  qed
qed

lemma dynamics_invokes_first:
  assumes vx: "\<not> (0 \<le> count x \<and> count x \<noteq> int (length (systems A)))"
      and vu: "\<not> (0 \<le> count u \<and> count u \<noteq> int (length (systems A)))"
      and n: "0 < length (systems A)"
  shows "\<exists>c. fst (dynamics A t x u) = 0 # c"
proof -
  obtain x0 u0 where g: "get x 0 = Some x0" "get u 0 = Some u0"
    using valid_get[OF vx n] valid_get[OF vu n] by auto
  from dynamics_loop_invokes[OF n g, of t _ "[]"] show ?thesis
    by (simp add: dynamics_passes[OF vx vu])
qed

lemma dynamics_validation_iff:
  "(dynamics A t x u = ([], Inl (InvalidArgument ''State count differs from systems count.'')) \<or>
    dynamics A t x u = ([], Inl (InvalidArgument ''Input count differs from systems count.'')))
   \<longleftrightarrow>
   (0 \<le> count x \<and> count x \<noteq> int (length (systems A))) \<or>
   (0 \<le> count u \<and> count u \<noteq> int (length (systems A)))"
proof (cases "(0 \<le> count x \<and> count x \<noteq> int (length (systems A))) \<or>
   (0 \<le> count u \<and> count u \<noteq> int (length (systems A)))")
  case True
  then show ?thesis by (auto simp add: dynamics_def)
next
  case False
  then have vx: "\<not> (0 \<le> count x \<and> count x \<noteq> int (length (systems A)))"
    and vu: "\<not> (0 \<le> count u \<and> count u \<noteq> int (length (systems A)))" by blast+
  have "dynamics A t x u \<noteq> ([], Inl (InvalidArgument m))" for m
    using dynamics_loop_no_calls[of A t x u 0 _ "[]" "InvalidArgument m"]
    by (auto simp add: dynamics_passes[OF vx vu])
  with False show ?thesis by blast
qed

section \<open>Properties of \<^verbatim>\<open>output\<close>\<close>

lemma output_Inr:
  assumes "output_sys A t x u = (calls, Inr r)"
  shows "count r = int (length (systems A)) \<and> calls = [0..<length (systems A)] \<and>
    (\<forall>j. j < length (systems A) \<longrightarrow>
      (\<exists>xj uj d. get x j = Some xj \<and> get u j = Some uj \<and>
         unit_output (systems A ! j) t xj uj = Inr d \<and> get r j = Some d))"
proof -
  from assms have
    "output_loop A t x u 0 (NAryState (OutputVector A) (length (systems A))) [] = (calls, Inr r)"
    by (simp add: output_sys_def split: if_splits)
  from output_loop_Inr[OF this count_NAryState] show ?thesis by simp
qed

lemma output_passes:
  assumes "\<not> (0 \<le> count x \<and> count x \<noteq> int (length (systems A)))"
      and "\<not> (0 \<le> count u \<and> count u \<noteq> int (length (systems A)))"
  shows "output_sys A t x u =
    output_loop A t x u 0 (NAryState (OutputVector A) (length (systems A))) []"
  by (simp only: output_sys_def assms if_False)

lemma output_returns:
  assumes vx: "\<not> (0 \<le> count x \<and> count x \<noteq> int (length (systems A)))"
      and vu: "\<not> (0 \<le> count u \<and> count u \<noteq> int (length (systems A)))"
      and ok: "\<forall>i xi ui. i < length (systems A) \<and> get x i = Some xi \<and> get u i = Some ui \<longrightarrow>
                 (\<exists>d. unit_output (systems A ! i) t xi ui = Inr d)"
  shows "\<exists>r. output_sys A t x u = ([0..<length (systems A)], Inr r)"
proof -
  have "\<forall>j. 0 \<le> j \<and> j < length (systems A) \<longrightarrow>
      (\<exists>xj uj d. get x j = Some xj \<and> get u j = Some uj \<and>
         unit_output (systems A ! j) t xj uj = Inr d)"
  proof (intro allI impI)
    fix j assume j: "0 \<le> j \<and> j < length (systems A)"
    then obtain xj uj where g: "get x j = Some xj" "get u j = Some uj"
      using valid_get[OF vx, of j] valid_get[OF vu, of j] by auto
    with ok j obtain d where "unit_output (systems A ! j) t xj uj = Inr d" by blast
    with g show "\<exists>xj uj d. get x j = Some xj \<and> get u j = Some uj \<and>
         unit_output (systems A ! j) t xj uj = Inr d" by simp
  qed
  then have "\<exists>r. output_loop A t x u 0 (NAryState (OutputVector A) (length (systems A))) [] =
      ([] @ [0..<length (systems A)], Inr r)"
    by (intro output_loop_returns count_NAryState)
  then show ?thesis by (simp add: output_passes[OF vx vu])
qed

lemma output_throws:
  assumes vx: "\<not> (0 \<le> count x \<and> count x \<noteq> int (length (systems A)))"
      and vu: "\<not> (0 \<le> count u \<and> count u \<noteq> int (length (systems A)))"
      and k: "k < length (systems A)"
      and before: "\<forall>j xj uj. j < k \<and> get x j = Some xj \<and> get u j = Some uj \<longrightarrow>
                 (\<exists>d. unit_output (systems A ! j) t xj uj = Inr d)"
      and at: "get x k = Some xk" "get u k = Some uk"
              "unit_output (systems A ! k) t xk uk = Inl e"
  shows "output_sys A t x u = ([0..<Suc k], Inl e)"
proof -
  have "\<forall>j. 0 \<le> j \<and> j < k \<longrightarrow>
      (\<exists>xj uj d. get x j = Some xj \<and> get u j = Some uj \<and>
         unit_output (systems A ! j) t xj uj = Inr d)"
  proof (intro allI impI)
    fix j assume j: "0 \<le> j \<and> j < k"
    with k have jn: "j < length (systems A)" by simp
    obtain xj uj where g: "get x j = Some xj" "get u j = Some uj"
      using valid_get[OF vx jn] valid_get[OF vu jn] by auto
    with before j obtain d where "unit_output (systems A ! j) t xj uj = Inr d" by blast
    with g show "\<exists>xj uj d. get x j = Some xj \<and> get u j = Some uj \<and>
         unit_output (systems A ! j) t xj uj = Inr d" by simp
  qed
  then have "output_loop A t x u 0 (NAryState (OutputVector A) (length (systems A))) [] =
      ([] @ [0..<Suc k], Inl e)"
    using k at by (intro output_loop_throws count_NAryState) simp_all
  then show ?thesis by (simp add: output_passes[OF vx vu])
qed

lemma output_loop_calls_prefix:
  "\<exists>c. fst (output_loop A t x u i y calls) = calls @ c"
proof (induction A t x u i y calls rule: output_loop.induct)
  case (1 A t x u i y calls)
  show ?case
  proof (cases "i < length (systems A)")
    case False
    then show ?thesis by (simp add: output_loop.simps[of A t x u i y calls])
  next
    case True
    show ?thesis
    proof (cases "get x i")
      case None
      with True show ?thesis by (simp add: output_loop.simps[of A t x u i y calls])
    next
      case gx: (Some xi)
      show ?thesis
      proof (cases "get u i")
        case None
        with True gx show ?thesis by (simp add: output_loop.simps[of A t x u i y calls])
      next
        case gu: (Some ui)
        show ?thesis
        proof (cases "unit_output (systems A ! i) t xi ui")
          case (Inl e)
          with True gx gu show ?thesis
            by (simp add: output_loop.simps[of A t x u i y calls])
        next
          case ud: (Inr d)
          show ?thesis
          proof (cases "set_unit y i d")
            case None
            with True gx gu ud show ?thesis
              by (simp add: output_loop.simps[of A t x u i y calls])
          next
            case su: (Some y')
            from "1.IH"[OF True gx gu ud su] obtain c where
              "fst (output_loop A t x u (i + 1) y' (calls @ [i])) = (calls @ [i]) @ c" ..
            with True gx gu ud su show ?thesis
              by (simp add: output_loop.simps[of A t x u i y calls])
          qed
        qed
      qed
    qed
  qed
qed

lemma output_loop_invokes:
  assumes i: "i < length (systems A)"
      and gx: "get x i = Some xi" and gu: "get u i = Some ui"
  shows "\<exists>c. fst (output_loop A t x u i y calls) = calls @ i # c"
proof (cases "unit_output (systems A ! i) t xi ui")
  case (Inl e)
  with i gx gu show ?thesis by (simp add: output_loop.simps[of A t x u i y calls])
next
  case ud: (Inr d)
  show ?thesis
  proof (cases "set_unit y i d")
    case None
    with i gx gu ud show ?thesis by (simp add: output_loop.simps[of A t x u i y calls])
  next
    case su: (Some y')
    obtain c where
      "fst (output_loop A t x u (i + 1) y' (calls @ [i])) = (calls @ [i]) @ c"
      using output_loop_calls_prefix[of A t x u "i + 1" y' "calls @ [i]"] ..
    with i gx gu ud su show ?thesis
      by (simp add: output_loop.simps[of A t x u i y calls])
  qed
qed

lemma output_loop_no_calls:
  assumes "output_loop A t x u i y calls = (calls, Inl e)"
  shows "e = OutOfRange"
proof (cases "i < length (systems A)")
  case False
  with assms show ?thesis by (simp add: output_loop.simps[of A t x u i y calls])
next
  case True
  show ?thesis
  proof (cases "\<exists>xi ui. get x i = Some xi \<and> get u i = Some ui")
    case False
    with assms True show ?thesis
      by (auto simp add: output_loop.simps[of A t x u i y calls] split: option.splits)
  next
    case True
    then obtain xi ui where "get x i = Some xi" "get u i = Some ui" by blast
    from output_loop_invokes[OF \<open>i < length (systems A)\<close> this, of t y calls] assms
    show ?thesis by simp
  qed
qed

lemma output_invokes_first:
  assumes vx: "\<not> (0 \<le> count x \<and> count x \<noteq> int (length (systems A)))"
      and vu: "\<not> (0 \<le> count u \<and> count u \<noteq> int (length (systems A)))"
      and n: "0 < length (systems A)"
  shows "\<exists>c. fst (output_sys A t x u) = 0 # c"
proof -
  obtain x0 u0 where g: "get x 0 = Some x0" "get u 0 = Some u0"
    using valid_get[OF vx n] valid_get[OF vu n] by auto
  from output_loop_invokes[OF n g, of t _ "[]"] show ?thesis
    by (simp add: output_passes[OF vx vu])
qed

lemma output_validation_iff:
  "(output_sys A t x u = ([], Inl (InvalidArgument ''State count differs from systems count.'')) \<or>
    output_sys A t x u = ([], Inl (InvalidArgument ''Input count differs from systems count.'')))
   \<longleftrightarrow>
   (0 \<le> count x \<and> count x \<noteq> int (length (systems A))) \<or>
   (0 \<le> count u \<and> count u \<noteq> int (length (systems A)))"
proof (cases "(0 \<le> count x \<and> count x \<noteq> int (length (systems A))) \<or>
   (0 \<le> count u \<and> count u \<noteq> int (length (systems A)))")
  case True
  then show ?thesis by (auto simp add: output_sys_def)
next
  case False
  then have vx: "\<not> (0 \<le> count x \<and> count x \<noteq> int (length (systems A)))"
    and vu: "\<not> (0 \<le> count u \<and> count u \<noteq> int (length (systems A)))" by blast+
  have "output_sys A t x u \<noteq> ([], Inl (InvalidArgument m))" for m
    using output_loop_no_calls[of A t x u 0 _ "[]" "InvalidArgument m"]
    by (auto simp add: output_passes[OF vx vu])
  with False show ?thesis by blast
qed

section \<open>Registration\<close>

lemma systems_foldl_addSystem:
  "systems (foldl addSystem A us) = systems A @ us"
  by (induction us arbitrary: A) (simp_all add: addSystem_def)

section \<open>Shared unit objects\<close>

text \<open>
  No member but \<^verbatim>\<open>addSystem\<close> changes the registered pointers, whatever the units do.
  With units whose operations leave them unchanged, a member returns the memory as it was
  and what the member of the first embedding returns on the aggregate the memory holds.
\<close>

lemma dynamics_shared_loop_systems:
  "systems_ptr (snd (dynamics_shared_loop C t x u i xdot calls m)) = systems_ptr m"
proof (induction C t x u i xdot calls m rule: dynamics_shared_loop.induct)
  case (1 C t x u i xdot calls m)
  show ?case
  proof (cases "i < length (systems_ptr m)")
    case False
    then show ?thesis by (simp add: dynamics_shared_loop.simps[of C t x u i xdot calls m])
  next
    case True
    show ?thesis
    proof (cases "get x i")
      case None
      with True show ?thesis by (simp add: dynamics_shared_loop.simps[of C t x u i xdot calls m])
    next
      case gx: (Some xi)
      show ?thesis
      proof (cases "get u i")
        case None
        with True gx show ?thesis
          by (simp add: dynamics_shared_loop.simps[of C t x u i xdot calls m])
      next
        case gu: (Some ui)
        obtain r q where md: "member_dynamics C (objects m (systems_ptr m ! i)) t xi ui = (r, q)"
          by (cases "member_dynamics C (objects m (systems_ptr m ! i)) t xi ui")
        show ?thesis
        proof (cases r)
          case (Inl e)
          with True gx gu md show ?thesis
            by (simp add: dynamics_shared_loop.simps[of C t x u i xdot calls m])
        next
          case rd: (Inr d)
          show ?thesis
          proof (cases "set_unit xdot i d")
            case None
            with True gx gu md rd show ?thesis
              by (simp add: dynamics_shared_loop.simps[of C t x u i xdot calls m])
          next
            case su: (Some xdot')
            from "1.IH"[OF True gx gu md[symmetric] _ su] rd True gx gu md su show ?thesis
              by (simp add: dynamics_shared_loop.simps[of C t x u i xdot calls m])
          qed
        qed
      qed
    qed
  qed
qed


lemma output_shared_loop_systems:
  "systems_ptr (snd (output_shared_loop C t x u i y calls m)) = systems_ptr m"
proof (induction C t x u i y calls m rule: output_shared_loop.induct)
  case (1 C t x u i y calls m)
  show ?case
  proof (cases "i < length (systems_ptr m)")
    case False
    then show ?thesis by (simp add: output_shared_loop.simps[of C t x u i y calls m])
  next
    case True
    show ?thesis
    proof (cases "get x i")
      case None
      with True show ?thesis by (simp add: output_shared_loop.simps[of C t x u i y calls m])
    next
      case gx: (Some xi)
      show ?thesis
      proof (cases "get u i")
        case None
        with True gx show ?thesis
          by (simp add: output_shared_loop.simps[of C t x u i y calls m])
      next
        case gu: (Some ui)
        obtain r q where md: "member_output C (objects m (systems_ptr m ! i)) t xi ui = (r, q)"
          by (cases "member_output C (objects m (systems_ptr m ! i)) t xi ui")
        show ?thesis
        proof (cases r)
          case (Inl e)
          with True gx gu md show ?thesis
            by (simp add: output_shared_loop.simps[of C t x u i y calls m])
        next
          case rd: (Inr d)
          show ?thesis
          proof (cases "set_unit y i d")
            case None
            with True gx gu md rd show ?thesis
              by (simp add: output_shared_loop.simps[of C t x u i y calls m])
          next
            case su: (Some y')
            from "1.IH"[OF True gx gu md[symmetric] _ su] rd True gx gu md su show ?thesis
              by (simp add: output_shared_loop.simps[of C t x u i y calls m])
          qed
        qed
      qed
    qed
  qed
qed


lemma dynamics_shared_loop_const:
  "\<forall>q t x u. snd (member_dynamics C q t x u) = q \<Longrightarrow>
   dynamics_shared_loop C t x u i xdot calls m =
     (dynamics_loop (aggregate_of C m) t x u i xdot calls, m)"
proof (induction C t x u i xdot calls m rule: dynamics_shared_loop.induct)
  case (1 C t x u i xdot calls m)
  note ro = "1.prems"
  have len: "length (systems (aggregate_of C m)) = length (systems_ptr m)"
    by (simp add: aggregate_of_def)
  show ?case
  proof (cases "i < length (systems_ptr m)")
    case False
    then show ?thesis
      by (simp add: dynamics_shared_loop.simps[of C t x u i xdot calls m]
          dynamics_loop.simps[of "aggregate_of C m" t x u i xdot calls] len)
  next
    case True
    then have nth: "systems (aggregate_of C m) ! i = unit_at C (objects m (systems_ptr m ! i))"
      by (simp add: aggregate_of_def)
    show ?thesis
    proof (cases "get x i")
      case None
      with True show ?thesis
        by (simp add: dynamics_shared_loop.simps[of C t x u i xdot calls m]
            dynamics_loop.simps[of "aggregate_of C m" t x u i xdot calls] len)
    next
      case gx: (Some xi)
      show ?thesis
      proof (cases "get u i")
        case None
        with True gx show ?thesis
          by (simp add: dynamics_shared_loop.simps[of C t x u i xdot calls m]
              dynamics_loop.simps[of "aggregate_of C m" t x u i xdot calls] len)
      next
        case gu: (Some ui)
        obtain r q where md: "member_dynamics C (objects m (systems_ptr m ! i)) t xi ui = (r, q)"
          by (cases "member_dynamics C (objects m (systems_ptr m ! i)) t xi ui")
        have q: "q = objects m (systems_ptr m ! i)"
          using ro[rule_format, of "objects m (systems_ptr m ! i)" t xi ui] md by simp
        have same: "m\<lparr>objects := (objects m)(systems_ptr m ! i := q)\<rparr> = m"
          by (simp add: q)
        have ud: "unit_dynamics (systems (aggregate_of C m) ! i) t xi ui = r"
          by (simp add: nth unit_at_def md)
        show ?thesis
        proof (cases r)
          case (Inl e)
          with True gx gu md ud same show ?thesis
            by (simp add: dynamics_shared_loop.simps[of C t x u i xdot calls m]
                dynamics_loop.simps[of "aggregate_of C m" t x u i xdot calls] len)
        next
          case rd: (Inr d)
          show ?thesis
          proof (cases "set_unit xdot i d")
            case None
            with True gx gu md ud rd same show ?thesis
              by (simp add: dynamics_shared_loop.simps[of C t x u i xdot calls m]
                  dynamics_loop.simps[of "aggregate_of C m" t x u i xdot calls] len)
          next
            case su: (Some xdot')
            from "1.IH"[OF True gx gu md[symmetric] _ su ro] rd True gx gu md ud su same
            show ?thesis
              by (simp add: dynamics_shared_loop.simps[of C t x u i xdot calls m]
                  dynamics_loop.simps[of "aggregate_of C m" t x u i xdot calls] len)
          qed
        qed
      qed
    qed
  qed
qed

lemma output_shared_loop_const:
  "\<forall>q t x u. snd (member_output C q t x u) = q \<Longrightarrow>
   output_shared_loop C t x u i y calls m =
     (output_loop (aggregate_of C m) t x u i y calls, m)"
proof (induction C t x u i y calls m rule: output_shared_loop.induct)
  case (1 C t x u i y calls m)
  note ro = "1.prems"
  have len: "length (systems (aggregate_of C m)) = length (systems_ptr m)"
    by (simp add: aggregate_of_def)
  show ?case
  proof (cases "i < length (systems_ptr m)")
    case False
    then show ?thesis
      by (simp add: output_shared_loop.simps[of C t x u i y calls m]
          output_loop.simps[of "aggregate_of C m" t x u i y calls] len)
  next
    case True
    then have nth: "systems (aggregate_of C m) ! i = unit_at C (objects m (systems_ptr m ! i))"
      by (simp add: aggregate_of_def)
    show ?thesis
    proof (cases "get x i")
      case None
      with True show ?thesis
        by (simp add: output_shared_loop.simps[of C t x u i y calls m]
            output_loop.simps[of "aggregate_of C m" t x u i y calls] len)
    next
      case gx: (Some xi)
      show ?thesis
      proof (cases "get u i")
        case None
        with True gx show ?thesis
          by (simp add: output_shared_loop.simps[of C t x u i y calls m]
              output_loop.simps[of "aggregate_of C m" t x u i y calls] len)
      next
        case gu: (Some ui)
        obtain r q where md: "member_output C (objects m (systems_ptr m ! i)) t xi ui = (r, q)"
          by (cases "member_output C (objects m (systems_ptr m ! i)) t xi ui")
        have q: "q = objects m (systems_ptr m ! i)"
          using ro[rule_format, of "objects m (systems_ptr m ! i)" t xi ui] md by simp
        have same: "m\<lparr>objects := (objects m)(systems_ptr m ! i := q)\<rparr> = m"
          by (simp add: q)
        have ud: "unit_output (systems (aggregate_of C m) ! i) t xi ui = r"
          by (simp add: nth unit_at_def md)
        show ?thesis
        proof (cases r)
          case (Inl e)
          with True gx gu md ud same show ?thesis
            by (simp add: output_shared_loop.simps[of C t x u i y calls m]
                output_loop.simps[of "aggregate_of C m" t x u i y calls] len)
        next
          case rd: (Inr d)
          show ?thesis
          proof (cases "set_unit y i d")
            case None
            with True gx gu md ud rd same show ?thesis
              by (simp add: output_shared_loop.simps[of C t x u i y calls m]
                  output_loop.simps[of "aggregate_of C m" t x u i y calls] len)
          next
            case su: (Some y')
            from "1.IH"[OF True gx gu md[symmetric] _ su ro] rd True gx gu md ud su same
            show ?thesis
              by (simp add: output_shared_loop.simps[of C t x u i y calls m]
                  output_loop.simps[of "aggregate_of C m" t x u i y calls] len)
          qed
        qed
      qed
    qed
  qed
qed

lemma dynamics_shared_systems:
  "systems_ptr (snd (dynamics_shared C m t x u)) = systems_ptr m"
  by (simp add: dynamics_shared_def dynamics_shared_loop_systems)

lemma output_shared_systems:
  "systems_ptr (snd (output_shared C m t x u)) = systems_ptr m"
  by (simp add: output_shared_def output_shared_loop_systems)

lemma flags_shared_systems:
  "systems_ptr (snd (isTimeVarying_shared C m)) = systems_ptr m"
  "systems_ptr (snd (isDirectFeedthrough_shared C m)) = systems_ptr m"
  by (simp_all add: isTimeVarying_shared_def isDirectFeedthrough_shared_def split: prod.splits)

lemma length_aggregate_of: "length (systems (aggregate_of C m)) = length (systems_ptr m)"
  by (simp add: aggregate_of_def)

lemma dynamics_shared_const:
  "\<forall>q t x u. snd (member_dynamics C q t x u) = q \<Longrightarrow>
   dynamics_shared C m t x u = (dynamics (aggregate_of C m) t x u, m)"
  by (simp add: dynamics_shared_def dynamics_def length_aggregate_of dynamics_shared_loop_const)
    (simp add: aggregate_of_def)

lemma output_shared_const:
  "\<forall>q t x u. snd (member_output C q t x u) = q \<Longrightarrow>
   output_shared C m t x u = (output_sys (aggregate_of C m) t x u, m)"
  by (simp add: output_shared_def output_sys_def length_aggregate_of output_shared_loop_const)
    (simp add: aggregate_of_def)

lemma isTimeVarying_shared_const:
  "\<forall>q. snd (member_isTimeVarying C q) = q \<Longrightarrow>
   isTimeVarying_shared C m = (isTimeVarying (aggregate_of C m), m)"
proof -
  assume ro: "\<forall>q. snd (member_isTimeVarying C q) = q"
  show ?thesis
  proof (cases "0 < length (systems_ptr m)")
    case False
    then show ?thesis
      by (simp add: isTimeVarying_shared_def isTimeVarying_def aggregate_of_def)
  next
    case True
    obtain b q where mt: "member_isTimeVarying C (objects m (systems_ptr m ! 0)) = (b, q)"
      by (cases "member_isTimeVarying C (objects m (systems_ptr m ! 0))")
    with ro[rule_format, of "objects m (systems_ptr m ! 0)"]
    have q: "q = objects m (systems_ptr m ! 0)" by simp
    from True mt show ?thesis
      by (simp add: isTimeVarying_shared_def isTimeVarying_def aggregate_of_def unit_at_def q)
  qed
qed

lemma isDirectFeedthrough_shared_const:
  "\<forall>q. snd (member_isDirectFeedthrough C q) = q \<Longrightarrow>
   isDirectFeedthrough_shared C m = (isDirectFeedthrough (aggregate_of C m), m)"
proof -
  assume ro: "\<forall>q. snd (member_isDirectFeedthrough C q) = q"
  show ?thesis
  proof (cases "0 < length (systems_ptr m)")
    case False
    then show ?thesis
      by (simp add: isDirectFeedthrough_shared_def isDirectFeedthrough_def aggregate_of_def)
  next
    case True
    obtain b q where mt: "member_isDirectFeedthrough C (objects m (systems_ptr m ! 0)) = (b, q)"
      by (cases "member_isDirectFeedthrough C (objects m (systems_ptr m ! 0))")
    with ro[rule_format, of "objects m (systems_ptr m ! 0)"]
    have q: "q = objects m (systems_ptr m ! 0)" by simp
    from True mt show ?thesis
      by (simp add: isDirectFeedthrough_shared_def isDirectFeedthrough_def aggregate_of_def
          unit_at_def q)
  qed
qed

lemma perform_systems:
  "\<not> is_AddSystem c \<Longrightarrow> systems_ptr (snd (perform C c m)) = systems_ptr m"
proof (cases c)
  case (Dynamics t x u)
  with dynamics_shared_systems[of C m t x u] show ?thesis by (simp add: case_prod_beta)
next
  case (Output t x u)
  with output_shared_systems[of C m t x u] show ?thesis by (simp add: case_prod_beta)
next
  case IsTimeVarying
  with flags_shared_systems(1)[of C m] show ?thesis by (simp add: case_prod_beta)
next
  case IsDirectFeedthrough
  with flags_shared_systems(2)[of C m] show ?thesis by (simp add: case_prod_beta)
qed (simp_all add: getNumStates_shared_def getNumInputs_shared_def getNumOutputs_shared_def)

lemma snd_perform_all_Cons:
  "snd (perform_all C (c # cs) m) = snd (perform_all C cs (snd (perform C c m)))"
  by (simp add: case_prod_beta)

lemma perform_all_systems:
  "systems_ptr (snd (perform_all C cs m)) = systems_ptr m @ added cs"
proof (induction cs arbitrary: m)
  case Nil
  show ?case by simp
next
  case (Cons c cs)
  show ?case
  proof (cases "is_AddSystem c")
    case True
    then obtain p where "c = AddSystem p" by (cases c) simp_all
    then show ?thesis
      by (simp add: snd_perform_all_Cons Cons addSystem_shared_def del: perform_all.simps)
  next
    case False
    then have "added (c # cs) = added cs" by (cases c) simp_all
    with perform_systems[OF False, of C m] show ?thesis
      by (simp add: snd_perform_all_Cons Cons del: perform_all.simps)
  qed
qed

lemma added_no_AddSystem: "\<forall>c\<in>set cs. \<not> is_AddSystem c \<Longrightarrow> added cs = []"
proof (induction cs)
  case Nil
  show ?case by simp
next
  case (Cons c cs)
  then show ?case by (cases c) simp_all
qed

lemma perform_const:
  assumes "\<forall>q t x u. snd (member_dynamics C q t x u) = q"
      and "\<forall>q t x u. snd (member_output C q t x u) = q"
      and "\<forall>q. snd (member_isTimeVarying C q) = q"
      and "\<forall>q. snd (member_isDirectFeedthrough C q) = q"
      and "\<not> is_AddSystem c"
  shows "snd (perform C c m) = m"
  using assms(5)
  by (cases c)
    (simp_all add: dynamics_shared_const[OF assms(1)] output_shared_const[OF assms(2)]
      isTimeVarying_shared_const[OF assms(3)] isDirectFeedthrough_shared_const[OF assms(4)]
      getNumStates_shared_def getNumInputs_shared_def getNumOutputs_shared_def)

lemma perform_all_const:
  assumes "\<forall>q t x u. snd (member_dynamics C q t x u) = q"
      and "\<forall>q t x u. snd (member_output C q t x u) = q"
      and "\<forall>q. snd (member_isTimeVarying C q) = q"
      and "\<forall>q. snd (member_isDirectFeedthrough C q) = q"
  shows "\<forall>c\<in>set cs. \<not> is_AddSystem c \<Longrightarrow> snd (perform_all C cs m) = m"
proof (induction cs)
  case Nil
  show ?case by simp
next
  case (Cons c cs)
  then have "\<not> is_AddSystem c" by simp
  from perform_const[OF assms this, of m] Cons show ?case
    by (simp add: snd_perform_all_Cons del: perform_all.simps)
qed

lemma gain_class_const:
  "\<forall>q t x u. snd (member_dynamics gain_class q t x u) = q"
  "\<forall>q t x u. snd (member_output gain_class q t x u) = q"
  "\<forall>q. snd (member_isTimeVarying gain_class q) = q"
  "\<forall>q. snd (member_isDirectFeedthrough gain_class q) = q"
  by (simp_all add: gain_class_def)

section \<open>The concrete aggregates, evaluated\<close>

lemma systems_three_units: "systems three_units = [decay_unit, decay_unit, decay_unit]"
  by (simp add: three_units_def empty_aggregate_def NArySystem_def addSystem_def)

lemma systems_faulty_units:
  "systems (faulty_units e) = [decay_unit, throwing_unit e, decay_unit]"
  by (simp add: faulty_units_def empty_aggregate_def NArySystem_def addSystem_def)

lemma StateVector_three_units: "StateVector three_units = scalar_vector"
  by (simp add: three_units_def empty_aggregate_def NArySystem_def addSystem_def)

lemma OutputVector_three_units: "OutputVector three_units = scalar_vector"
  by (simp add: three_units_def empty_aggregate_def NArySystem_def addSystem_def)

lemma three_units_dynamics:
  "dynamics three_units t (Sized [a, b, c]) (Sized [p, q, r]) =
     ([0, 1, 2], Inr (Sized [- a + p, - b + q, - c + r]))"
  by (simp add: dynamics_def systems_three_units StateVector_three_units NAryState_def
      scalar_vector_def decay_unit_def dynamics_loop.simps numeral_3_eq_3)

lemma three_units_output:
  "output_sys three_units t (Sized [a, b, c]) (Sized [p, q, r]) =
     ([0, 1, 2], Inr (Sized [a, b, c]))"
  by (simp add: output_sys_def systems_three_units OutputVector_three_units NAryState_def
      scalar_vector_def decay_unit_def output_loop.simps numeral_3_eq_3)

lemma InputVector_three_units: "InputVector three_units = scalar_vector"
  by (simp add: three_units_def empty_aggregate_def NArySystem_def addSystem_def)

lemma systems_empty_aggregate: "systems empty_aggregate = []"
  by (simp add: empty_aggregate_def NArySystem_def)

lemma decay_unit_calls:
  "unit_dynamics decay_unit t x u = Inr (- x + u)" "unit_output decay_unit t x u = Inr x"
  by (simp_all add: decay_unit_def)


section \<open>The claims\<close>

text \<open>
  Claim C1. For an aggregate with \<open>n\<close> registered units and a time, a composite state
  and a composite input whose counts pass validation, \<^verbatim>\<open>dynamics\<close> returns a composite
  vector of count \<open>n\<close> whose slot \<open>i\<close> holds what unit \<open>i\<close> returns for the time and the
  slots \<open>i\<close> of state and input; the units are invoked once each in the order
  \<open>0, \<dots>, n - 1\<close>. \<^verbatim>\<open>output\<close> does the same with the units' output operation. A unit
  may throw, so each half is stated for units that return on their slices.
\<close>

theorem dynamics_output_store_each_unit:
  assumes "\<not> (0 \<le> count state \<and> count state \<noteq> int (length (systems A)))"
      and "\<not> (0 \<le> count input \<and> count input \<noteq> int (length (systems A)))"
  shows
    "((\<forall>i xi ui. i < length (systems A) \<and> get state i = Some xi \<and> get input i = Some ui \<longrightarrow>
         (\<exists>d. unit_dynamics (systems A ! i) time xi ui = Inr d)) \<longrightarrow>
      (\<exists>xdot. dynamics A time state input = ([0..<length (systems A)], Inr xdot) \<and>
         count xdot = int (length (systems A)) \<and>
         (\<forall>i. i < length (systems A) \<longrightarrow>
            (\<exists>xi ui d. get state i = Some xi \<and> get input i = Some ui \<and>
               unit_dynamics (systems A ! i) time xi ui = Inr d \<and> get xdot i = Some d)))) \<and>
     ((\<forall>i xi ui. i < length (systems A) \<and> get state i = Some xi \<and> get input i = Some ui \<longrightarrow>
         (\<exists>d. unit_output (systems A ! i) time xi ui = Inr d)) \<longrightarrow>
      (\<exists>y. output_sys A time state input = ([0..<length (systems A)], Inr y) \<and>
         count y = int (length (systems A)) \<and>
         (\<forall>i. i < length (systems A) \<longrightarrow>
            (\<exists>xi ui d. get state i = Some xi \<and> get input i = Some ui \<and>
               unit_output (systems A ! i) time xi ui = Inr d \<and> get y i = Some d))))"
proof (intro conjI impI)
  assume ok: "\<forall>i xi ui. i < length (systems A) \<and> get state i = Some xi \<and>
      get input i = Some ui \<longrightarrow> (\<exists>d. unit_dynamics (systems A ! i) time xi ui = Inr d)"
  from dynamics_returns[OF assms ok] obtain xdot where
    r: "dynamics A time state input = ([0..<length (systems A)], Inr xdot)" ..
  from dynamics_Inr[OF r] r show
    "\<exists>xdot. dynamics A time state input = ([0..<length (systems A)], Inr xdot) \<and>
       count xdot = int (length (systems A)) \<and>
       (\<forall>i. i < length (systems A) \<longrightarrow>
          (\<exists>xi ui d. get state i = Some xi \<and> get input i = Some ui \<and>
             unit_dynamics (systems A ! i) time xi ui = Inr d \<and> get xdot i = Some d))"
    by blast
next
  assume ok: "\<forall>i xi ui. i < length (systems A) \<and> get state i = Some xi \<and>
      get input i = Some ui \<longrightarrow> (\<exists>d. unit_output (systems A ! i) time xi ui = Inr d)"
  from output_returns[OF assms ok] obtain y where
    r: "output_sys A time state input = ([0..<length (systems A)], Inr y)" ..
  from output_Inr[OF r] r show
    "\<exists>y. output_sys A time state input = ([0..<length (systems A)], Inr y) \<and>
       count y = int (length (systems A)) \<and>
       (\<forall>i. i < length (systems A) \<longrightarrow>
          (\<exists>xi ui d. get state i = Some xi \<and> get input i = Some ui \<and>
             unit_output (systems A ! i) time xi ui = Inr d \<and> get y i = Some d))"
    by blast
qed

theorem dynamics_output_store_each_unit_witness:
  "(\<exists>xdot. dynamics three_units 7 (Sized [1, 2, 3]) (Unsized (\<lambda>i. 10)) = ([0, 1, 2], Inr xdot) \<and>
      count xdot = 3 \<and> get xdot 0 = Some 9 \<and> get xdot 1 = Some 8 \<and> get xdot 2 = Some 7) \<and>
   (\<exists>y. output_sys three_units 7 (Sized [1, 2, 3]) (Unsized (\<lambda>i. 10)) = ([0, 1, 2], Inr y) \<and>
      count y = 3 \<and> get y 0 = Some 1 \<and> get y 1 = Some 2 \<and> get y 2 = Some 3)"
proof -
  have vx: "\<not> (0 \<le> count (Sized [1, 2, 3 :: real]) \<and>
      count (Sized [1, 2, 3 :: real]) \<noteq> int (length (systems three_units)))"
    by (simp add: systems_three_units)
  have vu: "\<not> (0 \<le> count (Unsized (\<lambda>i. 10 :: real)) \<and>
      count (Unsized (\<lambda>i. 10 :: real)) \<noteq> int (length (systems three_units)))"
    by simp
  have len: "length (systems three_units) = 3"
    by (simp add: systems_three_units)
  have nth: "systems three_units ! i = decay_unit" if "i < 3" for i
    using that by (auto simp add: systems_three_units less_Suc_eq numeral_3_eq_3)
  have okd: "\<forall>i xi ui. i < length (systems three_units) \<and> get (Sized [1, 2, 3 :: real]) i = Some xi \<and>
      get (Unsized (\<lambda>i. 10 :: real)) i = Some ui \<longrightarrow>
      (\<exists>d. unit_dynamics (systems three_units ! i) 7 xi ui = Inr d)"
    by (simp add: len nth decay_unit_def)
  have oko: "\<forall>i xi ui. i < length (systems three_units) \<and> get (Sized [1, 2, 3 :: real]) i = Some xi \<and>
      get (Unsized (\<lambda>i. 10 :: real)) i = Some ui \<longrightarrow>
      (\<exists>d. unit_output (systems three_units ! i) 7 xi ui = Inr d)"
    by (simp add: len nth decay_unit_def)
  from dynamics_output_store_each_unit[OF vx vu, of 7] okd oko
  obtain xdot y where
    d: "dynamics three_units 7 (Sized [1, 2, 3]) (Unsized (\<lambda>i. 10)) =
          ([0..<length (systems three_units)], Inr xdot)"
       "count xdot = int (length (systems three_units))"
       "\<forall>i. i < length (systems three_units) \<longrightarrow>
          (\<exists>xi ui d. get (Sized [1, 2, 3 :: real]) i = Some xi \<and>
             get (Unsized (\<lambda>i. 10 :: real)) i = Some ui \<and>
             unit_dynamics (systems three_units ! i) 7 xi ui = Inr d \<and> get xdot i = Some d)"
    and
    o: "output_sys three_units 7 (Sized [1, 2, 3]) (Unsized (\<lambda>i. 10)) =
          ([0..<length (systems three_units)], Inr y)"
       "count y = int (length (systems three_units))"
       "\<forall>i. i < length (systems three_units) \<longrightarrow>
          (\<exists>xi ui d. get (Sized [1, 2, 3 :: real]) i = Some xi \<and>
             get (Unsized (\<lambda>i. 10 :: real)) i = Some ui \<and>
             unit_output (systems three_units ! i) 7 xi ui = Inr d \<and> get y i = Some d)"
    by blast
  have u: "[0..<length (systems three_units)] = [0, 1, 2]"
    by (simp add: systems_three_units upt_rec)
  have "get xdot 0 = Some 9 \<and> get xdot 1 = Some 8 \<and> get xdot 2 = Some 7"
    using spec[OF d(3), of 0] spec[OF d(3), of 1] spec[OF d(3), of 2]
    by (auto simp add: len nth decay_unit_def)
  moreover have "get y 0 = Some 1 \<and> get y 1 = Some 2 \<and> get y 2 = Some 3"
    using spec[OF o(3), of 0] spec[OF o(3), of 1] spec[OF o(3), of 2]
    by (auto simp add: len nth decay_unit_def)
  ultimately show ?thesis using d(1,2) o(1,2) u by (simp add: len)
qed

text \<open>
  Claim C2. \<^verbatim>\<open>dynamics\<close> and \<^verbatim>\<open>output\<close> fail on validation, that is, throw
  \<^verbatim>\<open>std::invalid_argument\<close> with one of the two messages before any unit is called, exactly
  when the state count is not negative and differs from the number of units, or the input
  count is not negative and differs from it. The state mismatch gives the message
  \<^verbatim>\<open>State count differs from systems count.\<close>, an input mismatch alone gives
  \<^verbatim>\<open>Input count differs from systems count.\<close>, the texts as the header writes them. A
  negative count skips its check: with the other count passing and at least one unit
  registered, the call goes on to the loop and invokes unit 0.
\<close>

theorem count_validation:
  "((dynamics A time state input =
       ([], Inl (InvalidArgument ''State count differs from systems count.'')) \<or>
     dynamics A time state input =
       ([], Inl (InvalidArgument ''Input count differs from systems count.'')))
    \<longleftrightarrow>
     (0 \<le> count state \<and> count state \<noteq> int (length (systems A))) \<or>
     (0 \<le> count input \<and> count input \<noteq> int (length (systems A)))) \<and>
   ((output_sys A time state input =
       ([], Inl (InvalidArgument ''State count differs from systems count.'')) \<or>
     output_sys A time state input =
       ([], Inl (InvalidArgument ''Input count differs from systems count.'')))
    \<longleftrightarrow>
     (0 \<le> count state \<and> count state \<noteq> int (length (systems A))) \<or>
     (0 \<le> count input \<and> count input \<noteq> int (length (systems A)))) \<and>
   (0 \<le> count state \<and> count state \<noteq> int (length (systems A)) \<longrightarrow>
      dynamics A time state input =
        ([], Inl (InvalidArgument ''State count differs from systems count.'')) \<and>
      output_sys A time state input =
        ([], Inl (InvalidArgument ''State count differs from systems count.''))) \<and>
   (\<not> (0 \<le> count state \<and> count state \<noteq> int (length (systems A))) \<and>
    0 \<le> count input \<and> count input \<noteq> int (length (systems A)) \<longrightarrow>
      dynamics A time state input =
        ([], Inl (InvalidArgument ''Input count differs from systems count.'')) \<and>
      output_sys A time state input =
        ([], Inl (InvalidArgument ''Input count differs from systems count.''))) \<and>
   (count state < 0 \<and> \<not> (0 \<le> count input \<and> count input \<noteq> int (length (systems A))) \<and>
    0 < length (systems A) \<longrightarrow>
      (\<exists>c. fst (dynamics A time state input) = 0 # c) \<and>
      (\<exists>c. fst (output_sys A time state input) = 0 # c)) \<and>
   (count input < 0 \<and> \<not> (0 \<le> count state \<and> count state \<noteq> int (length (systems A))) \<and>
    0 < length (systems A) \<longrightarrow>
      (\<exists>c. fst (dynamics A time state input) = 0 # c) \<and>
      (\<exists>c. fst (output_sys A time state input) = 0 # c))"
proof (intro conjI impI)
  show "(dynamics A time state input =
       ([], Inl (InvalidArgument ''State count differs from systems count.'')) \<or>
     dynamics A time state input =
       ([], Inl (InvalidArgument ''Input count differs from systems count.'')))
    \<longleftrightarrow>
     (0 \<le> count state \<and> count state \<noteq> int (length (systems A))) \<or>
     (0 \<le> count input \<and> count input \<noteq> int (length (systems A)))"
    by (rule dynamics_validation_iff)
next
  show "(output_sys A time state input =
       ([], Inl (InvalidArgument ''State count differs from systems count.'')) \<or>
     output_sys A time state input =
       ([], Inl (InvalidArgument ''Input count differs from systems count.'')))
    \<longleftrightarrow>
     (0 \<le> count state \<and> count state \<noteq> int (length (systems A))) \<or>
     (0 \<le> count input \<and> count input \<noteq> int (length (systems A)))"
    by (rule output_validation_iff)
next
  assume "0 \<le> count state \<and> count state \<noteq> int (length (systems A))"
  then show "dynamics A time state input =
        ([], Inl (InvalidArgument ''State count differs from systems count.''))"
    by (simp add: dynamics_def)
next
  assume "0 \<le> count state \<and> count state \<noteq> int (length (systems A))"
  then show "output_sys A time state input =
        ([], Inl (InvalidArgument ''State count differs from systems count.''))"
    by (simp add: output_sys_def)
next
  assume "\<not> (0 \<le> count state \<and> count state \<noteq> int (length (systems A))) \<and>
    0 \<le> count input \<and> count input \<noteq> int (length (systems A))"
  then show "dynamics A time state input =
        ([], Inl (InvalidArgument ''Input count differs from systems count.''))"
    by (simp add: dynamics_def)
next
  assume "\<not> (0 \<le> count state \<and> count state \<noteq> int (length (systems A))) \<and>
    0 \<le> count input \<and> count input \<noteq> int (length (systems A))"
  then show "output_sys A time state input =
        ([], Inl (InvalidArgument ''Input count differs from systems count.''))"
    by (simp add: output_sys_def)
next
  assume h: "count state < 0 \<and>
    \<not> (0 \<le> count input \<and> count input \<noteq> int (length (systems A))) \<and> 0 < length (systems A)"
  then have vx: "\<not> (0 \<le> count state \<and> count state \<noteq> int (length (systems A)))" by simp
  from h dynamics_invokes_first[OF vx] show "\<exists>c. fst (dynamics A time state input) = 0 # c"
    by blast
next
  assume h: "count state < 0 \<and>
    \<not> (0 \<le> count input \<and> count input \<noteq> int (length (systems A))) \<and> 0 < length (systems A)"
  then have vx: "\<not> (0 \<le> count state \<and> count state \<noteq> int (length (systems A)))" by simp
  from h output_invokes_first[OF vx] show "\<exists>c. fst (output_sys A time state input) = 0 # c"
    by blast
next
  assume h: "count input < 0 \<and>
    \<not> (0 \<le> count state \<and> count state \<noteq> int (length (systems A))) \<and> 0 < length (systems A)"
  then have vu: "\<not> (0 \<le> count input \<and> count input \<noteq> int (length (systems A)))" by simp
  from h dynamics_invokes_first[OF _ vu] show "\<exists>c. fst (dynamics A time state input) = 0 # c"
    by blast
next
  assume h: "count input < 0 \<and>
    \<not> (0 \<le> count state \<and> count state \<noteq> int (length (systems A))) \<and> 0 < length (systems A)"
  then have vu: "\<not> (0 \<le> count input \<and> count input \<noteq> int (length (systems A)))" by simp
  from h output_invokes_first[OF _ vu] show "\<exists>c. fst (output_sys A time state input) = 0 # c"
    by blast
qed

theorem count_validation_witness:
  "dynamics three_units 0 (Sized [1, 2]) (Sized [0, 0, 0]) =
     ([], Inl (InvalidArgument ''State count differs from systems count.'')) \<and>
   output_sys three_units 0 (Sized [1, 2]) (Sized [0, 0, 0]) =
     ([], Inl (InvalidArgument ''State count differs from systems count.'')) \<and>
   dynamics three_units 0 (Unsized (\<lambda>i. 1)) (Sized [0, 0, 0, 0]) =
     ([], Inl (InvalidArgument ''Input count differs from systems count.'')) \<and>
   output_sys three_units 0 (Unsized (\<lambda>i. 1)) (Sized [0, 0, 0, 0]) =
     ([], Inl (InvalidArgument ''Input count differs from systems count.'')) \<and>
   (\<exists>c. fst (dynamics three_units 0 (Unsized (\<lambda>i. 1)) (Unsized (\<lambda>i. 0))) = 0 # c) \<and>
   (\<exists>c. fst (output_sys three_units 0 (Unsized (\<lambda>i. 1)) (Unsized (\<lambda>i. 0))) = 0 # c)"
  using count_validation[of three_units 0 "Sized [1, 2]" "Sized [0, 0, 0]"]
    count_validation[of three_units 0 "Unsized (\<lambda>i. 1)" "Sized [0, 0, 0, 0]"]
    count_validation[of three_units 0 "Unsized (\<lambda>i. 1)" "Unsized (\<lambda>i. 0)"]
  by (simp add: systems_three_units)



text \<open>
  Claim C4. The three dimension queries return \<^verbatim>\<open>rowsFromUnitCount\<close> of the number of
  registered units, for the state, input and output vector type respectively, which is the
  number of units times the rows of one unit; with no unit registered, and for a freshly
  constructed aggregate, all three are zero.
\<close>

theorem dimension_queries:
  "getNumStates A = rowsFromUnitCount (StateVector A) (length (systems A)) \<and>
   getNumInputs A = rowsFromUnitCount (InputVector A) (length (systems A)) \<and>
   getNumOutputs A = rowsFromUnitCount (OutputVector A) (length (systems A)) \<and>
   getNumStates A = length (systems A) * unit_rows (StateVector A) \<and>
   getNumInputs A = length (systems A) * unit_rows (InputVector A) \<and>
   getNumOutputs A = length (systems A) * unit_rows (OutputVector A) \<and>
   (systems A = [] \<longrightarrow> getNumStates A = 0 \<and> getNumInputs A = 0 \<and> getNumOutputs A = 0) \<and>
   getNumStates (NArySystem X U Y) = 0 \<and>
   getNumInputs (NArySystem X U Y) = 0 \<and>
   getNumOutputs (NArySystem X U Y) = 0"
  by (simp add: getNumStates_def getNumInputs_def getNumOutputs_def rowsFromUnitCount_def
      NArySystem_def)

theorem dimension_queries_witness:
  "getNumStates empty_aggregate = 0 \<and> getNumInputs empty_aggregate = 0 \<and>
   getNumOutputs empty_aggregate = 0 \<and>
   getNumStates three_units = 3 \<and> getNumInputs three_units = 3 \<and> getNumOutputs three_units = 3"
proof -
  from dimension_queries[of empty_aggregate] systems_empty_aggregate
  have e: "getNumStates empty_aggregate = 0 \<and> getNumInputs empty_aggregate = 0 \<and>
      getNumOutputs empty_aggregate = 0"
    by blast
  from dimension_queries[of three_units]
  have "getNumStates three_units = length (systems three_units) * unit_rows (StateVector three_units)"
    and "getNumInputs three_units = length (systems three_units) * unit_rows (InputVector three_units)"
    and "getNumOutputs three_units = length (systems three_units) * unit_rows (OutputVector three_units)"
    by blast+
  then have "getNumStates three_units = 3 \<and> getNumInputs three_units = 3 \<and>
      getNumOutputs three_units = 3"
    by (simp add: systems_three_units StateVector_three_units InputVector_three_units
        OutputVector_three_units scalar_vector_def)
  with e show ?thesis by simp
qed

text \<open>
  Claim C5. \<^verbatim>\<open>isTimeVarying\<close> holds exactly when a unit is registered and the unit at
  index 0 reports time-varying, \<^verbatim>\<open>isDirectFeedthrough\<close> exactly when a unit is registered
  and the unit at index 0 reports direct feedthrough. Both are false for an empty aggregate,
  and the units registered after the first have no part in either.
\<close>

theorem first_unit_flags:
  "(isTimeVarying A \<longleftrightarrow> systems A \<noteq> [] \<and> unit_isTimeVarying (systems A ! 0)) \<and>
   (isDirectFeedthrough A \<longleftrightarrow> systems A \<noteq> [] \<and> unit_isDirectFeedthrough (systems A ! 0)) \<and>
   (systems A = [] \<longrightarrow> \<not> isTimeVarying A \<and> \<not> isDirectFeedthrough A) \<and>
   (\<forall>first later. systems A = first # later \<longrightarrow>
      isTimeVarying A = unit_isTimeVarying first \<and>
      isDirectFeedthrough A = unit_isDirectFeedthrough first)"
  by (auto simp add: isTimeVarying_def isDirectFeedthrough_def)

theorem first_unit_flags_witness:
  "\<not> isTimeVarying empty_aggregate \<and> \<not> isDirectFeedthrough empty_aggregate \<and>
   \<not> isTimeVarying (faulty_units OutOfRange) \<and> \<not> isDirectFeedthrough (faulty_units OutOfRange) \<and>
   unit_isTimeVarying (systems (faulty_units OutOfRange) ! 1) \<and>
   unit_isDirectFeedthrough (systems (faulty_units OutOfRange) ! 1)"
  using first_unit_flags[of empty_aggregate] first_unit_flags[of "faulty_units OutOfRange"]
  by (simp add: systems_empty_aggregate systems_faulty_units decay_unit_def throwing_unit_def)

text \<open>
  Claim C6. \<^verbatim>\<open>addSystem\<close> appends its argument: the list grows by one, whatever its
  length, the units registered before keep their indices and the new unit takes the next
  one. Registering \<open>a\<close> then \<open>b\<close> on a new aggregate gives \<open>a\<close> index 0 and \<open>b\<close> index 1.
  The index stays with the unit under any later registrations, and whenever
  \<^verbatim>\<open>dynamics\<close> or \<^verbatim>\<open>output\<close> returns a vector, its slot at that index is what the unit
  returns for the slots of state and input at that index.
\<close>

theorem append_order:
  fixes A :: "('s, 'x, 'u, 'y, 'e) n_ary_system"
  shows
    "systems (addSystem A s) = systems A @ [s] \<and>
     length (systems (addSystem A s)) = length (systems A) + 1 \<and>
     (\<forall>i. i < length (systems A) \<longrightarrow> systems (addSystem A s) ! i = systems A ! i) \<and>
     systems (addSystem A s) ! length (systems A) = s \<and>
     length (systems (foldl addSystem A us)) = length (systems A) + length us \<and>
     systems (addSystem (addSystem (NArySystem X U Y) a) b) = [a, b] \<and>
     (\<forall>later. systems (foldl addSystem (addSystem A s) later) ! length (systems A) = s) \<and>
     (\<forall>later calls r.
        dynamics (foldl addSystem (addSystem A s) later) time state input = (calls, Inr r) \<longrightarrow>
        (\<exists>xk uk d. get state (length (systems A)) = Some xk \<and>
           get input (length (systems A)) = Some uk \<and>
           unit_dynamics s time xk uk = Inr d \<and> get r (length (systems A)) = Some d)) \<and>
     (\<forall>later calls r.
        output_sys (foldl addSystem (addSystem A s) later) time state input = (calls, Inr r) \<longrightarrow>
        (\<exists>xk uk d. get state (length (systems A)) = Some xk \<and>
           get input (length (systems A)) = Some uk \<and>
           unit_output s time xk uk = Inr d \<and> get r (length (systems A)) = Some d))"
proof -
  have sys: "systems (foldl addSystem (addSystem A s) later) = systems A @ s # later" for later
    by (simp add: systems_foldl_addSystem addSystem_def)
  have at: "systems (foldl addSystem (addSystem A s) later) ! length (systems A) = s" for later
    by (simp add: sys)
  have len: "length (systems A) < length (systems (foldl addSystem (addSystem A s) later))"
    for later by (simp add: sys)
  have d: "\<exists>xk uk d. get state (length (systems A)) = Some xk \<and>
           get input (length (systems A)) = Some uk \<and>
           unit_dynamics s time xk uk = Inr d \<and> get r (length (systems A)) = Some d"
    if "dynamics (foldl addSystem (addSystem A s) later) time state input = (calls, Inr r)"
    for later calls r
    using dynamics_Inr[OF that] len[of later] at[of later] by fastforce
  have o: "\<exists>xk uk d. get state (length (systems A)) = Some xk \<and>
           get input (length (systems A)) = Some uk \<and>
           unit_output s time xk uk = Inr d \<and> get r (length (systems A)) = Some d"
    if "output_sys (foldl addSystem (addSystem A s) later) time state input = (calls, Inr r)"
    for later calls r
    using output_Inr[OF that] len[of later] at[of later] by fastforce
  have basics: "systems (addSystem A s) = systems A @ [s] \<and>
     length (systems (addSystem A s)) = length (systems A) + 1 \<and>
     (\<forall>i. i < length (systems A) \<longrightarrow> systems (addSystem A s) ! i = systems A ! i) \<and>
     systems (addSystem A s) ! length (systems A) = s \<and>
     length (systems (foldl addSystem A us)) = length (systems A) + length us \<and>
     systems (addSystem (addSystem (NArySystem X U Y) a) b) = [a, b]"
    by (simp add: addSystem_def NArySystem_def systems_foldl_addSystem nth_append)
  from basics at d o show ?thesis by blast
qed

theorem append_order_witness:
  "systems (addSystem (addSystem empty_aggregate decay_unit) (throwing_unit OutOfRange)) =
     [decay_unit, throwing_unit OutOfRange] \<and>
   (\<exists>r. snd (dynamics three_units 0 (Sized [1, 2, 3]) (Sized [0, 10, 0])) = Inr r \<and>
      get r 1 = Some 8) \<and>
   (\<exists>r. snd (output_sys three_units 0 (Sized [1, 2, 3]) (Sized [0, 10, 0])) = Inr r \<and>
      get r 1 = Some 2)"
proof -
  let ?A = "addSystem empty_aggregate decay_unit"
  note w = append_order[of ?A decay_unit "[]" scalar_vector scalar_vector scalar_vector
      decay_unit "throwing_unit OutOfRange" 0 "Sized [1, 2, 3]" "Sized [0, 10, 0]"]
  have l: "length (systems ?A) = 1"
    by (simp add: addSystem_def systems_empty_aggregate)
  obtain r where d: "dynamics three_units 0 (Sized [1, 2, 3]) (Sized [0, 10, 0]) = ([0, 1, 2], Inr r)"
    by (simp add: three_units_dynamics)
  obtain y where o: "output_sys three_units 0 (Sized [1, 2, 3]) (Sized [0, 10, 0]) = ([0, 1, 2], Inr y)"
    by (simp add: three_units_output)
  from w have "\<forall>later calls r.
        dynamics (foldl addSystem (addSystem ?A decay_unit) later) 0 (Sized [1, 2, 3]) (Sized [0, 10, 0]) = (calls, Inr r) \<longrightarrow>
        (\<exists>xk uk d. get (Sized [1, 2, 3 :: real]) (length (systems ?A)) = Some xk \<and>
           get (Sized [0, 10, 0 :: real]) (length (systems ?A)) = Some uk \<and>
           unit_dynamics decay_unit 0 xk uk = Inr d \<and> get r (length (systems ?A)) = Some d)"
    by blast
  from this[rule_format, of "[decay_unit]" "[0, 1, 2]" r] d have "get r 1 = Some 8"
    by (auto simp add: l decay_unit_calls three_units_def[symmetric])
  moreover
  from w have "\<forall>later calls r.
        output_sys (foldl addSystem (addSystem ?A decay_unit) later) 0 (Sized [1, 2, 3]) (Sized [0, 10, 0]) = (calls, Inr r) \<longrightarrow>
        (\<exists>xk uk d. get (Sized [1, 2, 3 :: real]) (length (systems ?A)) = Some xk \<and>
           get (Sized [0, 10, 0 :: real]) (length (systems ?A)) = Some uk \<and>
           unit_output decay_unit 0 xk uk = Inr d \<and> get r (length (systems ?A)) = Some d)"
    by blast
  from this[rule_format, of "[decay_unit]" "[0, 1, 2]" y] o have "get y 1 = Some 2"
    by (auto simp add: l decay_unit_calls three_units_def[symmetric])
  moreover from w have "systems (addSystem (addSystem (NArySystem scalar_vector scalar_vector scalar_vector) decay_unit)
      (throwing_unit OutOfRange)) = [decay_unit, throwing_unit OutOfRange]"
    by blast
  ultimately show ?thesis using d o by (simp add: empty_aggregate_def)
qed

text \<open>
  Claim C7. With counts that pass validation, when the units before index \<open>k\<close> return and
  the operation of unit \<open>k\<close> throws \<open>e\<close>, the aggregate's call throws the same \<open>e\<close>: the
  outcome carries the exception as it was thrown and no vector, and no unit after \<open>k\<close> is
  called.
\<close>

theorem unit_failure_propagates:
  assumes "\<not> (0 \<le> count state \<and> count state \<noteq> int (length (systems A)))"
      and "\<not> (0 \<le> count input \<and> count input \<noteq> int (length (systems A)))"
      and "k < length (systems A)"
      and "get state k = Some xk" and "get input k = Some uk"
  shows
    "((\<forall>j xj uj. j < k \<and> get state j = Some xj \<and> get input j = Some uj \<longrightarrow>
         (\<exists>d. unit_dynamics (systems A ! j) time xj uj = Inr d)) \<and>
      unit_dynamics (systems A ! k) time xk uk = Inl e \<longrightarrow>
        dynamics A time state input = ([0..<Suc k], Inl e)) \<and>
     ((\<forall>j xj uj. j < k \<and> get state j = Some xj \<and> get input j = Some uj \<longrightarrow>
         (\<exists>d. unit_output (systems A ! j) time xj uj = Inr d)) \<and>
      unit_output (systems A ! k) time xk uk = Inl e \<longrightarrow>
        output_sys A time state input = ([0..<Suc k], Inl e))"
  using dynamics_throws[OF assms(1,2,3) _ assms(4,5)] output_throws[OF assms(1,2,3) _ assms(4,5)]
  by blast

theorem unit_failure_propagates_witness:
  "dynamics (faulty_units (Raised ''boom'')) 0 (Sized [1, 2, 3]) (Sized [0, 0, 0]) =
     ([0, 1], Inl (Raised ''boom'')) \<and>
   output_sys (faulty_units (Raised ''boom'')) 0 (Sized [1, 2, 3]) (Sized [0, 0, 0]) =
     ([0, 1], Inl (Raised ''boom''))"
proof -
  let ?A = "faulty_units (Raised ''boom'')"
  have vx: "\<not> (0 \<le> count (Sized [1, 2, 3 :: real]) \<and>
      count (Sized [1, 2, 3 :: real]) \<noteq> int (length (systems ?A)))"
    by (simp add: systems_faulty_units)
  have vu: "\<not> (0 \<le> count (Sized [0, 0, 0 :: real]) \<and>
      count (Sized [0, 0, 0 :: real]) \<noteq> int (length (systems ?A)))"
    by (simp add: systems_faulty_units)
  have k: "1 < length (systems ?A)" by (simp add: systems_faulty_units)
  have gx: "get (Sized [1, 2, 3 :: real]) 1 = Some 2" by simp
  have gu: "get (Sized [0, 0, 0 :: real]) 1 = Some 0" by simp
  have before: "\<forall>j xj uj. j < 1 \<and> get (Sized [1, 2, 3 :: real]) j = Some xj \<and>
      get (Sized [0, 0, 0 :: real]) j = Some uj \<longrightarrow>
      (\<exists>d. unit_dynamics (systems ?A ! j) 0 xj uj = Inr d)"
    by (simp add: systems_faulty_units decay_unit_def)
  have before': "\<forall>j xj uj. j < 1 \<and> get (Sized [1, 2, 3 :: real]) j = Some xj \<and>
      get (Sized [0, 0, 0 :: real]) j = Some uj \<longrightarrow>
      (\<exists>d. unit_output (systems ?A ! j) 0 xj uj = Inr d)"
    by (simp add: systems_faulty_units decay_unit_def)
  have at: "unit_dynamics (systems ?A ! 1) 0 2 0 = Inl (Raised ''boom'')"
    "unit_output (systems ?A ! 1) 0 2 0 = Inl (Raised ''boom'')"
    by (simp_all add: systems_faulty_units throwing_unit_def)
  have u: "[0..<Suc 1] = [0, 1]" by (simp add: upt_rec)
  from unit_failure_propagates[OF vx vu k gx gu, of 0 "Raised ''boom''"] before before' at u
  show ?thesis by simp
qed

text \<open>
  Claim C8. Three registered copies of the unit with one scalar of state, input and output
  and \<open>x' = - x + u\<close>, state \<open>[1, 2, 3]\<close> and input \<open>[0, 0, 0]\<close>: \<^verbatim>\<open>dynamics\<close> returns
  \<open>[- 1, - 2, - 3]\<close> at every time.
\<close>

theorem scenario_three_units:
  "dynamics three_units time (Sized [1, 2, 3]) (Sized [0, 0, 0]) =
     ([0, 1, 2], Inr (Sized [- 1, - 2, - 3]))"
  by (simp add: three_units_dynamics)

theorem scenario_three_units_witness:
  "length (systems three_units) = 3 \<and>
   snd (dynamics three_units 0 (Sized [1, 2, 3]) (Sized [0, 0, 0])) = Inr (Sized [- 1, - 2, - 3]) \<and>
   snd (dynamics three_units 42 (Sized [1, 2, 3]) (Sized [0, 0, 0])) = Inr (Sized [- 1, - 2, - 3])"
  using scenario_three_units[of 0] scenario_three_units[of 42]
  by (simp add: systems_three_units)

text \<open>
  Claim C9. In \<^verbatim>\<open>dynamics\<close> and in \<^verbatim>\<open>output\<close> the state count is checked first: when
  both counts are not negative and both differ from the number of units, the exception is
  the one with the state message, not the one with the input message. Whenever either check
  fails, no unit has been called.
\<close>

theorem state_check_first:
  "(0 \<le> count state \<and> count state \<noteq> int (length (systems A)) \<and>
    0 \<le> count input \<and> count input \<noteq> int (length (systems A)) \<longrightarrow>
      dynamics A time state input =
        ([], Inl (InvalidArgument ''State count differs from systems count.'')) \<and>
      snd (dynamics A time state input) \<noteq>
        Inl (InvalidArgument ''Input count differs from systems count.'') \<and>
      output_sys A time state input =
        ([], Inl (InvalidArgument ''State count differs from systems count.'')) \<and>
      snd (output_sys A time state input) \<noteq>
        Inl (InvalidArgument ''Input count differs from systems count.'')) \<and>
   ((0 \<le> count state \<and> count state \<noteq> int (length (systems A))) \<or>
    (0 \<le> count input \<and> count input \<noteq> int (length (systems A))) \<longrightarrow>
      fst (dynamics A time state input) = [] \<and> fst (output_sys A time state input) = [])"
  by (simp add: dynamics_def output_sys_def)

theorem state_check_first_witness:
  "dynamics three_units 0 (Sized [1]) (Sized [0, 0]) =
     ([], Inl (InvalidArgument ''State count differs from systems count.'')) \<and>
   snd (dynamics three_units 0 (Sized [1]) (Sized [0, 0])) \<noteq>
     Inl (InvalidArgument ''Input count differs from systems count.'') \<and>
   output_sys three_units 0 (Sized [1]) (Sized [0, 0]) =
     ([], Inl (InvalidArgument ''State count differs from systems count.'')) \<and>
   snd (output_sys three_units 0 (Sized [1]) (Sized [0, 0])) \<noteq>
     Inl (InvalidArgument ''Input count differs from systems count.'') \<and>
   fst (dynamics (faulty_units (Raised ''boom'')) 0 (Sized [1, 2, 3]) (Sized [0, 0])) = [] \<and>
   fst (output_sys (faulty_units (Raised ''boom'')) 0 (Sized [1, 2, 3]) (Sized [0, 0])) = []"
  using state_check_first[of "Sized [1]" three_units "Sized [0, 0]" 0]
    state_check_first[of "Sized [1, 2, 3]" "faulty_units (Raised ''boom'')" "Sized [0, 0]" 0]
  by (simp add: systems_three_units systems_faulty_units)

text \<open>
  Claim C10, as amended. A call of any member but \<^verbatim>\<open>addSystem\<close> leaves the registered
  sequence, the pointers in \<^verbatim>\<open>systems_\<close> and their order, as it was, also a call that
  fails validation and whatever the units do when called; so does any sequence of such
  calls. \<^verbatim>\<open>addSystem\<close> appends one pointer to the sequence and changes nothing else, and
  after any sequence of calls the sequence is the former one followed by the pointers
  registered, in order. When no operation of the unit class changes its unit, a sequence of
  calls other than \<^verbatim>\<open>addSystem\<close> leaves the whole memory as it was, and every later call
  replies as it would have before.
\<close>

theorem registered_sequence_kept:
  fixes C :: "('q, 's, 'x, 'u, 'y, 'e) unit_class" and m :: "'q memory"
    and c :: "('s, 'x, 'u) call"
  shows
    "(\<not> is_AddSystem c \<longrightarrow> systems_ptr (snd (perform C c m)) = systems_ptr m) \<and>
     ((\<forall>c\<in>set cs. \<not> is_AddSystem c) \<longrightarrow>
        systems_ptr (snd (perform_all C cs m)) = systems_ptr m) \<and>
     snd (perform C (AddSystem p) m) = m\<lparr>systems_ptr := systems_ptr m @ [p]\<rparr> \<and>
     systems_ptr (snd (perform_all C cs m)) = systems_ptr m @ added cs \<and>
     ((\<forall>q t x u. snd (member_dynamics C q t x u) = q) \<and>
      (\<forall>q t x u. snd (member_output C q t x u) = q) \<and>
      (\<forall>q. snd (member_isTimeVarying C q) = q) \<and>
      (\<forall>q. snd (member_isDirectFeedthrough C q) = q) \<and>
      (\<forall>c\<in>set cs. \<not> is_AddSystem c) \<longrightarrow>
        snd (perform_all C cs m) = m \<and>
        (\<forall>c'. perform C c' (snd (perform_all C cs m)) = perform C c' m))"
proof (intro conjI impI)
  assume "\<not> is_AddSystem c"
  then show "systems_ptr (snd (perform C c m)) = systems_ptr m" by (rule perform_systems)
next
  assume "\<forall>c\<in>set cs. \<not> is_AddSystem c"
  then show "systems_ptr (snd (perform_all C cs m)) = systems_ptr m"
    by (simp add: perform_all_systems added_no_AddSystem)
next
  show "snd (perform C (AddSystem p) m) = m\<lparr>systems_ptr := systems_ptr m @ [p]\<rparr>"
    by (simp add: addSystem_shared_def)
next
  show "systems_ptr (snd (perform_all C cs m)) = systems_ptr m @ added cs"
    by (rule perform_all_systems)
next
  assume h: "(\<forall>q t x u. snd (member_dynamics C q t x u) = q) \<and>
      (\<forall>q t x u. snd (member_output C q t x u) = q) \<and>
      (\<forall>q. snd (member_isTimeVarying C q) = q) \<and>
      (\<forall>q. snd (member_isDirectFeedthrough C q) = q) \<and>
      (\<forall>c\<in>set cs. \<not> is_AddSystem c)"
  then show same: "snd (perform_all C cs m) = m"
    using perform_all_const[of C cs m] by blast
  show "\<forall>c'. perform C c' (snd (perform_all C cs m)) = perform C c' m"
    by (simp add: same)
qed

theorem registered_sequence_kept_witness:
  "snd (perform_all gain_class
      [Dynamics 0 (Sized [1]) (Sized [0, 0, 0]), IsTimeVarying, GetNumStates,
       Output 0 (Sized [1, 2, 3]) (Sized [0, 0, 0]), IsDirectFeedthrough,
       Dynamics 0 (Sized [1, 2, 3]) (Sized [0, 0, 0])] shared_units) = shared_units \<and>
   systems_ptr (snd (perform gain_class (AddSystem 1) shared_units)) = [0, 1, 0, 1] \<and>
   objects (snd (perform gain_class (AddSystem 1) shared_units)) = objects shared_units \<and>
   systems_ptr (snd (perform_all counting_class
      [Dynamics 0 (Sized [1]) (Sized [0]), AddSystem 5, IsTimeVarying] one_unit)) = [0, 5] \<and>
   systems_ptr (snd (perform counting_class (Dynamics 0 (Sized [1]) (Sized [0])) one_unit)) = [0]"
proof -
  let ?cs = "[Dynamics 0 (Sized [1]) (Sized [0, 0, 0]), IsTimeVarying, GetNumStates,
       Output 0 (Sized [1, 2, 3]) (Sized [0, 0, 0]), IsDirectFeedthrough,
       Dynamics 0 (Sized [1, 2, 3]) (Sized [0, 0, 0])] :: (real, real, real) call list"
  have no: "\<forall>c\<in>set ?cs. \<not> is_AddSystem c" by simp
  from registered_sequence_kept[of IsTimeVarying gain_class shared_units ?cs 1]
    gain_class_const no
  have 1: "snd (perform_all gain_class ?cs shared_units) = shared_units"
    and 2: "snd (perform gain_class (AddSystem 1) shared_units) =
      shared_units\<lparr>systems_ptr := systems_ptr shared_units @ [1]\<rparr>"
    by blast+
  let ?ds = "[Dynamics 0 (Sized [1]) (Sized [0]), AddSystem 5, IsTimeVarying]
    :: (real, real, real) call list"
  from registered_sequence_kept[of "Dynamics 0 (Sized [1]) (Sized [0])" counting_class one_unit ?ds 5]
  have 3: "systems_ptr (snd (perform_all counting_class ?ds one_unit)) =
      systems_ptr one_unit @ added ?ds"
    and 4: "systems_ptr (snd (perform counting_class (Dynamics 0 (Sized [1]) (Sized [0])) one_unit)) =
      systems_ptr one_unit"
    by simp_all
  from 1 2 3 4 show ?thesis by (simp add: shared_units_def one_unit_def)
qed

text \<open>
  The claim as it was stated has every later evaluation result as before. A unit is called
  through a pointer to an object that is not \<^verbatim>\<open>const\<close>: with one registered unit that
  counts its calls, the same call of \<^verbatim>\<open>dynamics\<close> returns \<open>[1]\<close> and then \<open>[2]\<close>.
\<close>

theorem later_results_change_counterexample:
  "fst (dynamics_shared counting_class one_unit 0 (Sized [0]) (Sized [0])) =
     ([0], Inr (Sized [1])) \<and>
   fst (dynamics_shared counting_class
          (snd (dynamics_shared counting_class one_unit 0 (Sized [0]) (Sized [0])))
          0 (Sized [0]) (Sized [0])) =
     ([0], Inr (Sized [2])) \<and>
   fst (perform counting_class (Dynamics 0 (Sized [0]) (Sized [0]))
          (snd (perform_all counting_class [Dynamics 0 (Sized [0]) (Sized [0])] one_unit))) \<noteq>
   fst (perform counting_class (Dynamics 0 (Sized [0]) (Sized [0])) one_unit)"
  by (simp add: dynamics_shared_def one_unit_def counting_class_def scalar_vector_def
      NAryState_def dynamics_shared_loop.simps case_prod_beta)

end
